theory Spec2Isabelle
  imports Complex_Main
begin

section \<open>Python floats\<close>

text \<open>
  The pipeline stores its running bounds as Python floats that start at
  \<^verbatim>\<open>math.inf\<close> and \<^verbatim>\<open>-math.inf\<close>. A float is modelled as a finite real, one of
  the two infinities, or NaN. Arithmetic on finite values is exact real arithmetic: the
  rounding and the overflow of binary64 are not modelled. Comparisons with NaN are
  false, \<^verbatim>\<open>inf - inf\<close> and \<^verbatim>\<open>inf / inf\<close> are NaN, and a division by zero raises
  \<^verbatim>\<open>ZeroDivisionError\<close>, as in Python.
\<close>

datatype pyfloat = Fin real | PInf | NInf | NaN

datatype error = ZeroDivisionError | ValueError | AttributeError | TypeError
  | OSError | RuntimeError | UnicodeDecodeError | RecursionError | OverflowError
  | ConnectionClosed

fun flt :: "pyfloat \<Rightarrow> pyfloat \<Rightarrow> bool" where
  "flt (Fin x) (Fin y) = (x < y)"
| "flt (Fin x) PInf = True"
| "flt NInf (Fin y) = True"
| "flt NInf PInf = True"
| "flt _ _ = False"

definition fgt :: "pyfloat \<Rightarrow> pyfloat \<Rightarrow> bool" where
  "fgt a b = flt b a"

fun fsub :: "pyfloat \<Rightarrow> pyfloat \<Rightarrow> pyfloat" where
  "fsub (Fin x) (Fin y) = Fin (x - y)"
| "fsub NaN _ = NaN"
| "fsub _ NaN = NaN"
| "fsub PInf PInf = NaN"
| "fsub NInf NInf = NaN"
| "fsub PInf _ = PInf"
| "fsub NInf _ = NInf"
| "fsub (Fin x) PInf = NInf"
| "fsub (Fin x) NInf = PInf"

fun fdiv :: "pyfloat \<Rightarrow> pyfloat \<Rightarrow> error + pyfloat" where
  "fdiv a (Fin y) =
     (if y = 0 then Inl ZeroDivisionError
      else case a of
        Fin x \<Rightarrow> Inr (Fin (x / y))
      | PInf \<Rightarrow> Inr (if 0 < y then PInf else NInf)
      | NInf \<Rightarrow> Inr (if 0 < y then NInf else PInf)
      | NaN \<Rightarrow> Inr NaN)"
| "fdiv _ NaN = Inr NaN"
| "fdiv (Fin x) _ = Inr (Fin 0)"
| "fdiv _ _ = Inr NaN"

text \<open>
  Python's two-argument \<^verbatim>\<open>min(a, b)\<close> returns \<^verbatim>\<open>b\<close> when \<^verbatim>\<open>b < a\<close> and
  \<^verbatim>\<open>a\<close> otherwise; \<^verbatim>\<open>max(a, b)\<close> returns \<^verbatim>\<open>b\<close> when \<^verbatim>\<open>b > a\<close>.
\<close>

definition py_min :: "pyfloat \<Rightarrow> pyfloat \<Rightarrow> pyfloat" where
  "py_min a b = (if flt b a then b else a)"

definition py_max :: "pyfloat \<Rightarrow> pyfloat \<Rightarrow> pyfloat" where
  "py_max a b = (if fgt b a then b else a)"

fun isfinite :: "pyfloat \<Rightarrow> bool" where
  "isfinite (Fin x) = True"
| "isfinite _ = False"

section \<open>The normalizer\<close>

text \<open>\<^verbatim>\<open>NormState\<close> of \<^verbatim>\<open>bridge/eeg_ws_bridge.py\<close>, a dataclass of two floats.\<close>

record NormState =
  Emin :: pyfloat
  Emax :: pyfloat

definition NormState_init :: NormState where
  "NormState_init = \<lparr>Emin = PInf, Emax = NInf\<rparr>"

definition update :: "NormState \<Rightarrow> pyfloat \<Rightarrow> NormState" where
  "update s v =
     (let s1 = (if flt v (Emin s) then s\<lparr>Emin := v\<rparr> else s)
      in (if fgt v (Emax s1) then s1\<lparr>Emax := v\<rparr> else s1))"

definition reset :: "NormState \<Rightarrow> NormState" where
  "reset s = s\<lparr>Emin := PInf, Emax := NInf\<rparr>"

text \<open>
  Lines 245 to 249 of \<^verbatim>\<open>_stream_loop\<close>: the ratio when \<^verbatim>\<open>Emax > Emin\<close>, the
  midpoint otherwise, then the clamp \<^verbatim>\<open>max(0.0, min(1.0, Enorm))\<close>.
\<close>

definition normalize_E :: "NormState \<Rightarrow> pyfloat \<Rightarrow> error + pyfloat" where
  "normalize_E s E =
     (case (if fgt (Emax s) (Emin s)
            then fdiv (fsub E (Emin s)) (fsub (Emax s) (Emin s))
            else Inr (Fin (1/2))) of
        Inl e \<Rightarrow> Inl e
      | Inr Enorm \<Rightarrow> Inr (py_max (Fin 0) (py_min (Fin 1) Enorm)))"

text \<open>A sequence of \<^verbatim>\<open>update\<close> calls, in order.\<close>

definition observe_all :: "NormState \<Rightarrow> pyfloat list \<Rightarrow> NormState" where
  "observe_all s vs = foldl update s vs"

section \<open>Arrays and the numpy functions the pipeline calls\<close>

text \<open>
  A two-dimensional array is the list of its rows (samples), each row the list of its
  channel values. \<^verbatim>\<open>shape[0]\<close> is the number of rows, \<^verbatim>\<open>shape[1]\<close> the length of
  a row, \<^verbatim>\<open>size\<close> their product. Sample values are reals: the rounding of
  \<^verbatim>\<open>float32\<close> and \<^verbatim>\<open>float64\<close> is not modelled.
\<close>

type_synonym ndarray = "real list list"

definition nrows :: "ndarray \<Rightarrow> nat" where
  "nrows a = length a"

definition ncols :: "ndarray \<Rightarrow> nat" where
  "ncols a = (case a of [] \<Rightarrow> 0 | r # _ \<Rightarrow> length r)"

definition asize :: "ndarray \<Rightarrow> nat" where
  "asize a = nrows a * ncols a"

text \<open>
  The slice \<^verbatim>\<open>a[-k:]\<close> for \<^verbatim>\<open>k >= 0\<close>: the last \<^verbatim>\<open>k\<close> rows, all of them when
  there are fewer, and the whole array when \<^verbatim>\<open>k\<close> is 0 (\<^verbatim>\<open>a[-0:]\<close> is \<^verbatim>\<open>a[0:]\<close>).
\<close>

definition last_rows :: "nat \<Rightarrow> 'a list \<Rightarrow> 'a list" where
  "last_rows k a = (if k = 0 then a else drop (length a - k) a)"

text \<open>\<^verbatim>\<open>np.vstack\<close> raises \<^verbatim>\<open>ValueError\<close> when the row lengths differ.\<close>

definition vstack :: "ndarray \<Rightarrow> ndarray \<Rightarrow> error + ndarray" where
  "vstack a b = (if ncols a = ncols b then Inr (a @ b) else Inl ValueError)"

definition column :: "ndarray \<Rightarrow> nat \<Rightarrow> real list" where
  "column a c = map (\<lambda>r. r ! c) a"

text \<open>
  \<^verbatim>\<open>np.hanning(M)\<close>: empty for \<^verbatim>\<open>M < 1\<close>, \<^verbatim>\<open>[1.0]\<close> for \<^verbatim>\<open>M = 1\<close>, and
  \<^verbatim>\<open>0.5 - 0.5 cos(2 pi k / (M - 1))\<close> for \<^verbatim>\<open>0 <= k < M\<close> otherwise.
\<close>

definition hanning :: "nat \<Rightarrow> real list" where
  "hanning M =
     (if M = 1 then [1]
      else map (\<lambda>k. 1/2 - 1/2 * cos (2 * pi * real k / real (M - 1))) [0..<M])"

definition mean :: "real list \<Rightarrow> real" where
  "mean x = sum_list x / real (length x)"

text \<open>
  \<^verbatim>\<open>np.fft.rfftfreq(n, d)\<close> is \<^verbatim>\<open>[0, 1, ..., n // 2] / (d * n)\<close>, and
  \<^verbatim>\<open>np.fft.rfft(a)\<close> is the first \<^verbatim>\<open>n // 2 + 1\<close> terms of the discrete Fourier
  transform of \<^verbatim>\<open>a\<close>.
\<close>

definition rfftfreq :: "nat \<Rightarrow> real \<Rightarrow> real list" where
  "rfftfreq n d = map (\<lambda>k. real k / (d * real n)) [0..<n div 2 + 1]"

definition rfft :: "real list \<Rightarrow> complex list" where
  "rfft a =
     (let n = length a
      in map (\<lambda>k. \<Sum>m = 0..<n.
                 complex_of_real (a ! m) * cis (- (2 * pi * real m * real k / real n)))
           [0..<n div 2 + 1])"

text \<open>Boolean-mask indexing \<^verbatim>\<open>a[mask]\<close> and \<^verbatim>\<open>np.any(mask)\<close>.\<close>

definition mask_select :: "'a list \<Rightarrow> bool list \<Rightarrow> 'a list" where
  "mask_select a msk = map fst (filter snd (zip a msk))"

definition any_true :: "bool list \<Rightarrow> bool" where
  "any_true msk = list_ex (\<lambda>m. m) msk"

text \<open>
  \<^verbatim>\<open>np.trapz(y, x)\<close> sums \<^verbatim>\<open>(x[i+1] - x[i]) * (y[i+1] + y[i]) / 2\<close> over the
  consecutive pairs; it is 0 for fewer than two points.
\<close>

fun trapz :: "real list \<Rightarrow> real list \<Rightarrow> real" where
  "trapz (y0 # y1 # ys) (x0 # x1 # xs) =
     (x1 - x0) * (y1 + y0) / 2 + trapz (y1 # ys) (x1 # xs)"
| "trapz _ _ = 0"

section \<open>The spectral engine\<close>

definition THETA :: "real \<times> real" where "THETA = (4, 7)"
definition ALPHA :: "real \<times> real" where "ALPHA = (7, 11)"
definition BETA :: "real \<times> real" where "BETA = (11, 20)"

text \<open>
  \<^verbatim>\<open>bandpower_hann_rfft\<close> (and its twin \<^verbatim>\<open>bandpower_welchish\<close>). The expression
  \<^verbatim>\<open>1.0 / fs\<close> is a Python float division and raises when \<^verbatim>\<open>fs\<close> is 0.
\<close>

definition bandpower_hann_rfft :: "real list \<Rightarrow> real \<Rightarrow> real \<Rightarrow> real \<Rightarrow> error + real" where
  "bandpower_hann_rfft x fs f_lo f_hi =
     (let n = length x in
      if n = 0 then Inr 0
      else if fs = 0 then Inl ZeroDivisionError
      else
        let window = hanning n;
            demeaned = map2 (\<lambda>xi wi. (xi - mean x) * wi) x window;
            freqs = rfftfreq n (1 / fs);
            spec = rfft demeaned;
            psd = map (\<lambda>z. (cmod z)\<^sup>2 / (sum_list (map (\<lambda>w. w\<^sup>2) window) * fs)) spec;
            msk = map (\<lambda>f. f_lo \<le> f \<and> f < f_hi) freqs
        in if \<not> any_true msk then Inr 0
           else Inr (trapz (mask_select psd msk) (mask_select freqs msk)))"

text \<open>The loop over the channels, accumulating \<^verbatim>\<open>(theta_p, alpha_p, beta_p)\<close>.\<close>

fun channel_loop ::
  "ndarray \<Rightarrow> real \<Rightarrow> nat list \<Rightarrow> real \<times> real \<times> real \<Rightarrow> error + (real \<times> real \<times> real)" where
  "channel_loop win fs [] acc = Inr acc"
| "channel_loop win fs (c # cs) (theta_p, alpha_p, beta_p) =
     (let sig = column win c in
      case bandpower_hann_rfft sig fs (fst THETA) (snd THETA) of
        Inl e \<Rightarrow> Inl e
      | Inr pt \<Rightarrow>
          (case bandpower_hann_rfft sig fs (fst ALPHA) (snd ALPHA) of
             Inl e \<Rightarrow> Inl e
           | Inr pa \<Rightarrow>
               (case bandpower_hann_rfft sig fs (fst BETA) (snd BETA) of
                  Inl e \<Rightarrow> Inl e
                | Inr pb \<Rightarrow>
                    channel_loop win fs cs (theta_p + pt, alpha_p + pa, beta_p + pb))))"

text \<open>\<^verbatim>\<open>engagement_from_window\<close>: the result is \<^verbatim>\<open>(E, alpha_p, theta_p, beta_p)\<close>.\<close>

definition engagement_from_window ::
  "ndarray \<Rightarrow> real \<Rightarrow> error + (real \<times> real \<times> real \<times> real)" where
  "engagement_from_window win fs =
     (if asize win = 0 then Inr (0, 0, 0, 0)
      else
        let C = ncols win in
        case channel_loop win fs [0..<C] (0, 0, 0) of
          Inl e \<Rightarrow> Inl e
        | Inr (theta_s, alpha_s, beta_s) \<Rightarrow>
            let theta_p = theta_s / real C;
                alpha_p = alpha_s / real C;
                beta_p = beta_s / real C;
                denom = alpha_p + theta_p;
                E = (if denom > 1 / 10 ^ 12 then beta_p / denom else 0)
            in Inr (E, alpha_p, theta_p, beta_p))"

text \<open>
  The same computation in the words of the specification: per channel the mean is
  removed, the signal is multiplied by the Hann window, the power spectral density at
  bin \<open>k\<close> is the squared magnitude of the Fourier sum over the window energy times the
  sampling rate, and the band power is the trapezoidal sum over the consecutive bins
  that both lie in \<open>[lo, hi)\<close>; bands are averaged over the channels.
\<close>

definition spec_hann :: "nat \<Rightarrow> nat \<Rightarrow> real" where
  "spec_hann n k = (1 - cos (2 * pi * real k / real (n - 1))) / 2"

definition spec_freq :: "nat \<Rightarrow> real \<Rightarrow> nat \<Rightarrow> real" where
  "spec_freq n fs k = real k * fs / real n"

definition spec_psd :: "real list \<Rightarrow> real \<Rightarrow> nat \<Rightarrow> real" where
  "spec_psd x fs k =
     (let n = length x;
          mu = (\<Sum>m = 0..<n. x ! m) / real n
      in (cmod (\<Sum>m = 0..<n. complex_of_real ((x ! m - mu) * spec_hann n m)
                   * exp (- (2 * pi * \<i> * complex_of_real (real m * real k / real n)))))\<^sup>2
         / ((\<Sum>m = 0..<n. (spec_hann n m)\<^sup>2) * fs))"

definition spec_bandpower :: "real list \<Rightarrow> real \<Rightarrow> real \<Rightarrow> real \<Rightarrow> real" where
  "spec_bandpower x fs lo hi =
     (let n = length x
      in \<Sum>k \<leftarrow> [0..<n div 2].
           if lo \<le> spec_freq n fs k \<and> spec_freq n fs (k + 1) < hi
           then (spec_freq n fs (k + 1) - spec_freq n fs k)
                * (spec_psd x fs (k + 1) + spec_psd x fs k) / 2
           else 0)"

definition spec_band_mean :: "ndarray \<Rightarrow> real \<Rightarrow> real \<Rightarrow> real \<Rightarrow> real" where
  "spec_band_mean win fs lo hi =
     (\<Sum>c \<leftarrow> [0..<ncols win]. spec_bandpower (column win c) fs lo hi) / real (ncols win)"

definition spec_compute :: "ndarray \<Rightarrow> real \<Rightarrow> real \<times> real \<times> real \<times> real" where
  "spec_compute win fs =
     (let theta = spec_band_mean win fs 4 7;
          alpha = spec_band_mean win fs 7 11;
          beta = spec_band_mean win fs 11 20
      in (if alpha + theta > 1 / 10 ^ 12 then beta / (alpha + theta) else 0,
          alpha, theta, beta))"

section \<open>The broadcast hub\<close>

text \<open>
  A connection is named by a number. The messages the bridge sends are the three
  kinds of dictionary it builds; \<^verbatim>\<open>json.dumps\<close> is not modelled, a message is
  delivered as it was built. A bound that is not finite is sent as \<^verbatim>\<open>null\<close>
  (\<open>None\<close>).
\<close>

type_synonym conn = nat

datatype out_msg =
    Hello string
  | Calibration string
  | CalibrationBounds string "pyfloat option" "pyfloat option"
  | Engagement (m_ts: int) (m_fs: real) (m_E: pyfloat) (m_Enorm: pyfloat)
      (m_alpha: real) (m_theta: real) (m_beta: real)
      (m_Emin: "pyfloat option") (m_Emax: "pyfloat option") (m_mode: string)

definition finite_or_none :: "pyfloat \<Rightarrow> pyfloat option" where
  "finite_or_none v = (if isfinite v then Some v else None)"

text \<open>
  What the websocket library does is outside the repository: \<open>send_fails\<close> holds
  the connections whose \<^verbatim>\<open>send\<close> raises, \<open>close_fails\<close> those whose \<^verbatim>\<open>close\<close>
  raises.
\<close>

record net =
  send_fails :: "conn set"
  close_fails :: "conn set"

text \<open>
  The shared state of \<^verbatim>\<open>EEGBridge\<close>. \<open>clients\<close> lists the members of the
  Python set in its iteration order. \<open>inbox\<close> and \<open>closed\<close> record what reached the
  peers: the messages delivered to each connection, and the connections closed.
\<close>

record bridge =
  clients :: "conn list"
  mode :: string
  norm_st :: NormState
  inbox :: "conn \<Rightarrow> out_msg list"
  closed :: "conn set"

definition discard :: "conn \<Rightarrow> conn list \<Rightarrow> conn list" where
  "discard ws cs = removeAll ws cs"

definition add_client :: "conn \<Rightarrow> conn list \<Rightarrow> conn list" where
  "add_client ws cs = (if ws \<in> set cs then cs else cs @ [ws])"

text \<open>
  \<^verbatim>\<open>_safe_send\<close>: a failed \<^verbatim>\<open>send\<close> is caught; the handler closes the connection
  and, in a \<^verbatim>\<open>finally\<close>, discards it. An exception of \<^verbatim>\<open>close\<close> is not caught:
  it leaves \<^verbatim>\<open>_safe_send\<close> after the discard. The result is the state and the
  exception raised, if any.
\<close>

definition safe_send :: "net \<Rightarrow> conn \<Rightarrow> out_msg \<Rightarrow> bridge \<Rightarrow> bridge \<times> error option" where
  "safe_send nt ws message b =
     (if ws \<notin> send_fails nt
      then (b\<lparr>inbox := (inbox b)(ws := inbox b ws @ [message])\<rparr>, None)
      else if ws \<notin> close_fails nt
      then (b\<lparr>closed := insert ws (closed b), clients := discard ws (clients b)\<rparr>, None)
      else (b\<lparr>clients := discard ws (clients b)\<rparr>, Some ConnectionClosed))"

text \<open>
  \<^verbatim>\<open>asyncio.gather\<close> over the sends, called without \<^verbatim>\<open>return_exceptions\<close>: the
  sends run as separate tasks, and the first exception raised among them is raised to
  the caller at once, while the sends that have not finished by then are still pending.
  The list gives the order in which the sends finish; the state returned with an
  exception holds the effects of the sends that finished before it and of the one that
  raised, and of no other.
\<close>

fun gather_sends :: "net \<Rightarrow> out_msg \<Rightarrow> conn list \<Rightarrow> bridge \<Rightarrow> bridge \<times> error option" where
  "gather_sends nt payload [] b = (b, None)"
| "gather_sends nt payload (ws # wss) b =
     (case safe_send nt ws payload b of
        (b1, Some e) \<Rightarrow> (b1, Some e)
      | (b1, None) \<Rightarrow> gather_sends nt payload wss b1)"

text \<open>
  \<^verbatim>\<open>_broadcast\<close>. The subscribers are taken in the order of \<open>clients\<close>, which
  stands for any order in which their sends may finish.
\<close>

definition broadcast :: "net \<Rightarrow> out_msg \<Rightarrow> bridge \<Rightarrow> bridge \<times> error option" where
  "broadcast nt obj b =
     (if clients b = [] then (b, None)
      else gather_sends nt obj (clients b) b)"

section \<open>The control protocol\<close>

datatype json = JNull | JBool bool | JInt int | JNum pyfloat | JStr string
  | JArr "json list" | JObj "(string \<times> json) list"

text \<open>
  A JSON value as \<^verbatim>\<open>json.loads\<close> returns it: an integer is a Python \<^verbatim>\<open>int\<close>
  (\<open>JInt\<close>), any other number a float (\<open>JNum\<close>).

  An inbound message after \<^verbatim>\<open>json.loads\<close>: the call raised
  \<^verbatim>\<open>JSONDecodeError\<close> (\<open>NotJSON\<close>); or the message was a binary frame that is
  not valid UTF-8 and the call raised \<^verbatim>\<open>UnicodeDecodeError\<close> (\<open>NotText\<close>); or
  the call raised another exception that is not a \<^verbatim>\<open>JSONDecodeError\<close>, such as
  \<^verbatim>\<open>RecursionError\<close> on a deeply nested text or \<^verbatim>\<open>ValueError\<close> on an integer
  beyond the digit limit (\<open>Unloadable\<close>); or it returned a value.
  \<^verbatim>\<open>json.loads\<close> keeps the last of several bindings of a key; \<^verbatim>\<open>dict.get\<close>
  returns \<^verbatim>\<open>None\<close> (here \<open>JNull\<close>), or the given default, for a missing key.
\<close>

datatype inbound = NotJSON | NotText | Unloadable error | Payload json

definition dict_get_default :: "(string \<times> json) list \<Rightarrow> string \<Rightarrow> json \<Rightarrow> json" where
  "dict_get_default kvs k d = (case map_of (rev kvs) k of None \<Rightarrow> d | Some v \<Rightarrow> v)"

definition dict_get :: "(string \<times> json) list \<Rightarrow> string \<Rightarrow> json" where
  "dict_get kvs k = dict_get_default kvs k JNull"

definition valid_modes :: "string list" where
  "valid_modes = [''normal'', ''relax'', ''mental'']"

text \<open>
  The body of the \<^verbatim>\<open>async for\<close> loop of \<^verbatim>\<open>_handler\<close>, for one message.
  Only \<^verbatim>\<open>JSONDecodeError\<close> is caught. \<^verbatim>\<open>payload.get\<close> exists only on a
  dictionary: on any other JSON value the attribute lookup raises
  \<^verbatim>\<open>AttributeError\<close>.
\<close>

definition handle_message :: "net \<Rightarrow> inbound \<Rightarrow> bridge \<Rightarrow> bridge \<times> error option" where
  "handle_message nt message b =
     (case message of
        NotJSON \<Rightarrow> (b, None)
      | NotText \<Rightarrow> (b, Some UnicodeDecodeError)
      | Unloadable e \<Rightarrow> (b, Some e)
      | Payload payload \<Rightarrow>
          (case payload of
             JObj kvs \<Rightarrow>
               (let msg_type = dict_get kvs ''type'' in
                if msg_type = JStr ''subscribe'' then (b, None)
                else
                  (case (if msg_type = JStr ''set_mode''
                         then (case dict_get kvs ''mode'' of
                                 JStr m \<Rightarrow>
                                   if m \<in> set valid_modes
                                   then (let b' = b\<lparr>mode := m\<rparr>
                                         in broadcast nt (Calibration (mode b')) b')
                                   else (b, None)
                               | _ \<Rightarrow> (b, None))
                         else (b, None)) of
                     (b1, Some e) \<Rightarrow> (b1, Some e)
                   | (b1, None) \<Rightarrow>
                       if msg_type = JStr ''reset_norm''
                       then (let b2 = b1\<lparr>norm_st := reset (norm_st b1)\<rparr>
                             in broadcast nt
                                  (CalibrationBounds (mode b2)
                                     (finite_or_none (Emin (norm_st b2)))
                                     (finite_or_none (Emax (norm_st b2)))) b2)
                       else (b1, None)))
           | _ \<Rightarrow> (b, Some AttributeError)))"

text \<open>The loop over the messages of one connection stops at the first exception.\<close>

fun handler_loop :: "net \<Rightarrow> inbound list \<Rightarrow> bridge \<Rightarrow> bridge \<times> error option" where
  "handler_loop nt [] b = (b, None)"
| "handler_loop nt (m # ms) b =
     (case handle_message nt m b of
        (b1, Some e) \<Rightarrow> (b1, Some e)
      | (b1, None) \<Rightarrow> handler_loop nt ms b1)"

text \<open>
  \<^verbatim>\<open>_handler\<close> for a connection that delivers the messages \<open>ms\<close> and then closes:
  register, greet, loop, and unregister in the \<^verbatim>\<open>finally\<close>. When the result
  carries an exception the handler ended early and the server drops the connection.
\<close>

definition handler :: "net \<Rightarrow> conn \<Rightarrow> inbound list \<Rightarrow> bridge \<Rightarrow> bridge \<times> error option" where
  "handler nt ws ms b =
     (let b0 = b\<lparr>clients := add_client ws (clients b)\<rparr> in
      case (if ws \<in> send_fails nt then (b0, Some ConnectionClosed)
            else handler_loop nt ms
                   (b0\<lparr>inbox := (inbox b0)(ws := inbox b0 ws @ [Hello (mode b0)])\<rparr>)) of
        (b1, e) \<Rightarrow> (b1\<lparr>clients := discard ws (clients b1)\<rparr>, e))"

section \<open>The pipeline loop\<close>

definition EEG_PULL_PERIOD_S :: real where
  "EEG_PULL_PERIOD_S = 2 / 10"

definition WINDOW_S :: real where
  "WINDOW_S = 1"

definition GATE_STRIDE :: nat where
  "GATE_STRIDE = 256"

text \<open>
  The sampling rate the board reports is an integer. \<^verbatim>\<open>int(round(WINDOW_S * fs))\<close>
  rounds an integer here, so the rounding mode does not matter.
\<close>

definition win_len_of :: "nat \<Rightarrow> nat" where
  "win_len_of fs = nat (round (WINDOW_S * real fs))"

text \<open>
  The local variables of \<^verbatim>\<open>_stream_loop\<close> and of \<^verbatim>\<open>run_engagement\<close>.
  \<open>evals\<close> is not a variable of the source: it counts the evaluations of a window,
  so that theorems can speak of them.
\<close>

record loop_vars =
  buf :: ndarray
  global_idx :: nat
  next_gate :: nat
  next_pull :: real
  last_sec :: int
  evals :: nat

text \<open>Lines 231 to 235: the first block is cut to the window length, later blocks
  are stacked and cut to \<^verbatim>\<open>keep\<close> rows.\<close>

definition buffer_append :: "nat \<Rightarrow> nat \<Rightarrow> ndarray \<Rightarrow> ndarray \<Rightarrow> error + ndarray" where
  "buffer_append win_len fs bf X =
     (if asize bf = 0
      then Inr (if nrows X \<ge> win_len then last_rows win_len X else X)
      else
        let keep = max (win_len * 2) (win_len + fs) in
        case vstack bf X of
          Inl e \<Rightarrow> Inl e
        | Inr st \<Rightarrow> Inr (last_rows keep st))"

text \<open>Lines 236 to 238: the next pull instant.\<close>

definition advance_pull :: "real \<Rightarrow> real \<Rightarrow> real" where
  "advance_pull now np =
     (let np1 = np + EEG_PULL_PERIOD_S
      in if now - np1 > EEG_PULL_PERIOD_S then now else np1)"

text \<open>The acquisition part of an iteration; \<open>X\<close> is what \<^verbatim>\<open>get_new_eeg\<close> returns.\<close>

definition pull_step ::
  "nat \<Rightarrow> nat \<Rightarrow> real \<Rightarrow> ndarray \<Rightarrow> 'a loop_vars_scheme \<Rightarrow> error + 'a loop_vars_scheme" where
  "pull_step fs win_len now X v =
     (if now \<ge> next_pull v
      then
        (case (if nrows X > 0
               then (case buffer_append win_len fs (buf v) X of
                       Inl e \<Rightarrow> Inl e
                     | Inr bf \<Rightarrow> Inr (v\<lparr>global_idx := global_idx v + nrows X, buf := bf\<rparr>))
               else Inr v) of
           Inl e \<Rightarrow> Inl e
         | Inr v1 \<Rightarrow> Inr (v1\<lparr>next_pull := advance_pull now (next_pull v1)\<rparr>))
      else Inr v)"

text \<open>Lines 268 and 269: \<^verbatim>\<open>while next_gate <= global_idx: next_gate += GATE_STRIDE\<close>.\<close>

function advance_gate :: "nat \<Rightarrow> nat \<Rightarrow> nat" where
  "advance_gate ng gi = (if ng \<le> gi then advance_gate (ng + GATE_STRIDE) gi else ng)"
  by pat_completeness auto
termination
  by (relation "measure (\<lambda>(ng, gi). Suc gi - ng)") (auto simp: GATE_STRIDE_def)

declare advance_gate.simps [simp del]

definition gate_due :: "nat \<Rightarrow> 'a loop_vars_scheme \<Rightarrow> bool" where
  "gate_due win_len v =
     (global_idx v \<ge> next_gate v \<and> nrows (buf v) \<ge> win_len \<and> ncols (buf v) > 0)"

text \<open>
  Lines 240 to 269 of \<^verbatim>\<open>_stream_loop\<close>: the gated evaluation. \<open>ts\<close> is the wall
  clock in milliseconds. An exception ends the loop where it is raised, so the
  statements after it do not run.
\<close>

definition gate_step ::
  "net \<Rightarrow> nat \<Rightarrow> nat \<Rightarrow> int \<Rightarrow> loop_vars \<times> bridge \<Rightarrow> (loop_vars \<times> bridge) \<times> error option" where
  "gate_step nt fs win_len ts = (\<lambda>(v, b).
     if gate_due win_len v then
       (let win = last_rows win_len (buf v) in
        case engagement_from_window win (real fs) of
          Inl e \<Rightarrow> ((v, b), Some e)
        | Inr (E, alpha_p, theta_p, beta_p) \<Rightarrow>
            (let v1 = v\<lparr>evals := evals v + 1\<rparr>;
                 b1 = b\<lparr>norm_st := update (norm_st b) (Fin E)\<rparr>
             in case normalize_E (norm_st b1) (Fin E) of
                  Inl e \<Rightarrow> ((v1, b1), Some e)
                | Inr Enorm \<Rightarrow>
                    if fs = 0 then ((v1, b1), Some ZeroDivisionError)
                    else
                      (let sec = int (global_idx v1 div fs) in
                       case (if sec \<noteq> last_sec v1
                             then (case broadcast nt
                                          (Engagement ts (real fs) (Fin E) Enorm
                                             alpha_p theta_p beta_p
                                             (finite_or_none (Emin (norm_st b1)))
                                             (finite_or_none (Emax (norm_st b1)))
                                             (mode b1)) b1 of
                                     (b2, e) \<Rightarrow> ((v1\<lparr>last_sec := sec\<rparr>, b2), e))
                             else ((v1, b1), None)) of
                         ((v2, b2), Some e) \<Rightarrow> ((v2, b2), Some e)
                       | ((v2, b2), None) \<Rightarrow>
                           ((v2\<lparr>next_gate := advance_gate (next_gate v2) (global_idx v2)\<rparr>,
                             b2), None))))
     else ((v, b), None))"


definition loop_vars_init :: "real \<Rightarrow> loop_vars" where
  "loop_vars_init t0 =
     \<lparr>buf = [], global_idx = 0, next_gate = GATE_STRIDE, next_pull = t0,
      last_sec = - 1, evals = 0\<rparr>"

section \<open>Persistence of the bounds\<close>

text \<open>
  What reading a path yields: \<open>Missing\<close> when \<^verbatim>\<open>open\<close> raises, \<open>Garbage\<close> when
  \<^verbatim>\<open>json.load\<close> raises, the parsed value otherwise. \<open>unwritable\<close> holds the paths
  that cannot be created or replaced.
\<close>

datatype read_result = Missing | Garbage | Content json

record world =
  disk :: "string \<Rightarrow> read_result"
  unwritable :: "string set"

text \<open>
  \<^verbatim>\<open>float(v)\<close> on a value read from JSON. An integer too large for a binary64
  float raises \<^verbatim>\<open>OverflowError\<close>: the largest magnitude that still converts lies
  below \<^verbatim>\<open>2**1024 - 2**970\<close>. How a string is parsed as a float is a parameter,
  \<open>str_float\<close>.
\<close>

definition py_float :: "(string \<Rightarrow> pyfloat option) \<Rightarrow> json \<Rightarrow> error + pyfloat" where
  "py_float str_float v =
     (case v of
        JNum x \<Rightarrow> Inr x
      | JInt i \<Rightarrow>
          if \<bar>i\<bar> < 2 ^ 1024 - 2 ^ 970 then Inr (Fin (real_of_int i))
          else Inl OverflowError
      | JBool t \<Rightarrow> Inr (Fin (if t then 1 else 0))
      | JStr s \<Rightarrow> (case str_float s of None \<Rightarrow> Inl ValueError | Some x \<Rightarrow> Inr x)
      | _ \<Rightarrow> Inl TypeError)"

text \<open>The body of the \<^verbatim>\<open>try\<close> of \<^verbatim>\<open>load_norm_state\<close>, then the function.\<close>

definition load_body ::
  "(string \<Rightarrow> pyfloat option) \<Rightarrow> world \<Rightarrow> string \<Rightarrow> error + (pyfloat \<times> pyfloat)" where
  "load_body str_float w path =
     (case disk w path of
        Missing \<Rightarrow> Inl OSError
      | Garbage \<Rightarrow> Inl ValueError
      | Content d \<Rightarrow>
          (case d of
             JObj kvs \<Rightarrow>
               (case py_float str_float (dict_get_default kvs ''Emin'' (JNum PInf)) of
                  Inl e \<Rightarrow> Inl e
                | Inr lo \<Rightarrow>
                    (case py_float str_float (dict_get_default kvs ''Emax'' (JNum NInf)) of
                       Inl e \<Rightarrow> Inl e
                     | Inr hi \<Rightarrow> Inr (lo, hi)))
           | _ \<Rightarrow> Inl AttributeError))"

definition load_norm_state ::
  "(string \<Rightarrow> pyfloat option) \<Rightarrow> world \<Rightarrow> string \<Rightarrow> pyfloat \<times> pyfloat" where
  "load_norm_state str_float w path =
     (case load_body str_float w path of
        Inl e \<Rightarrow> (PInf, NInf)
      | Inr r \<Rightarrow> r)"

text \<open>
  \<^verbatim>\<open>save_norm_state\<close> writes a temporary file and renames it. Nothing in it catches
  an exception. \<open>t\<close> is the value of \<^verbatim>\<open>monotonic_ns()\<close>.
\<close>

definition save_norm_state ::
  "string \<Rightarrow> pyfloat \<Rightarrow> pyfloat \<Rightarrow> int \<Rightarrow> world \<Rightarrow> world \<times> error option" where
  "save_norm_state path lo hi t w =
     (let tmp = path @ ''.tmp'';
          doc = Content (JObj [(''Emin'', JNum lo), (''Emax'', JNum hi),
                               (''updated_ns'', JInt t)])
      in if tmp \<in> unwritable w then (w, Some OSError)
         else
           let w1 = w\<lparr>disk := (disk w)(tmp := doc)\<rparr>
           in if path \<in> unwritable w then (w1, Some OSError)
              else (w1\<lparr>disk := (disk w1)(path := doc, tmp := Missing)\<rparr>, None))"

text \<open>The variables of \<^verbatim>\<open>run_engagement\<close>: those of the loop and the two bounds.\<close>

record run_vars = loop_vars +
  lo_bound :: pyfloat
  hi_bound :: pyfloat

text \<open>
  Lines 138 to 169 of \<^verbatim>\<open>run_engagement\<close>. The call of \<^verbatim>\<open>save_norm_state\<close> stands
  in the loop body with no handler around it, so its exception ends the loop.
\<close>

definition run_gate_step ::
  "string \<Rightarrow> nat \<Rightarrow> nat \<Rightarrow> int \<Rightarrow> run_vars \<times> world \<Rightarrow> (run_vars \<times> world) \<times> error option" where
  "run_gate_step path fs win_len t = (\<lambda>(v, w).
     if gate_due win_len v then
       (let win = last_rows win_len (buf v) in
        case engagement_from_window win (real fs) of
          Inl e \<Rightarrow> ((v, w), Some e)
        | Inr (E, a, th, bt) \<Rightarrow>
            (let v1 = v\<lparr>evals := evals v + 1\<rparr>;
                 (lo1, updated1) =
                    (if flt (Fin E) (lo_bound v1) then (Fin E, True) else (lo_bound v1, False));
                 (hi1, updated2) =
                    (if fgt (Fin E) (hi_bound v1) then (Fin E, True) else (hi_bound v1, updated1));
                 v2 = v1\<lparr>lo_bound := lo1, hi_bound := hi1\<rparr>
             in case (if updated2 then save_norm_state path lo1 hi1 t w else (w, None)) of
                  (w1, Some e) \<Rightarrow> ((v2, w1), Some e)
                | (w1, None) \<Rightarrow>
                    (case normalize_E \<lparr>Emin = lo1, Emax = hi1\<rparr> (Fin E) of
                       Inl e \<Rightarrow> ((v2, w1), Some e)
                     | Inr Enorm \<Rightarrow>
                         if fs = 0 then ((v2, w1), Some ZeroDivisionError)
                         else
                           (let sec = int (global_idx v2 div fs);
                                v3 = (if sec \<noteq> last_sec v2 then v2\<lparr>last_sec := sec\<rparr> else v2)
                            in ((v3\<lparr>next_gate := advance_gate (next_gate v3) (global_idx v3)\<rparr>,
                                 w1), None)))))
     else ((v, w), None))"

definition run_iter ::
  "string \<Rightarrow> nat \<Rightarrow> real \<times> ndarray \<times> int \<Rightarrow> run_vars \<times> world
     \<Rightarrow> (run_vars \<times> world) \<times> error option" where
  "run_iter path fs = (\<lambda>(now, X, t) (v, w).
     case pull_step fs (win_len_of fs) now X v of
       Inl e \<Rightarrow> ((v, w), Some e)
     | Inr v1 \<Rightarrow> run_gate_step path fs (win_len_of fs) t (v1, w))"

text \<open>
  The \<^verbatim>\<open>while True\<close> loop, run over the iterations that a list of clock readings
  and pulled blocks describes. It stops at the first exception; the rest of the list is
  not consumed.
\<close>

fun run_loop ::
  "string \<Rightarrow> nat \<Rightarrow> (real \<times> ndarray \<times> int) list \<Rightarrow> run_vars \<times> world
     \<Rightarrow> (run_vars \<times> world) \<times> error option" where
  "run_loop path fs [] s = (s, None)"
| "run_loop path fs (tick # ticks) s =
     (case run_iter path fs tick s of
        (s1, Some e) \<Rightarrow> (s1, Some e)
      | (s1, None) \<Rightarrow> run_loop path fs ticks s1)"

definition run_vars_init :: "real \<Rightarrow> pyfloat \<times> pyfloat \<Rightarrow> run_vars" where
  "run_vars_init t0 bounds =
     \<lparr>buf = [], global_idx = 0, next_gate = GATE_STRIDE, next_pull = t0,
      last_sec = - 1, evals = 0, lo_bound = fst bounds, hi_bound = snd bounds\<rparr>"

definition run_engagement ::
  "(string \<Rightarrow> pyfloat option) \<Rightarrow> string \<Rightarrow> nat \<Rightarrow> real \<Rightarrow> (real \<times> ndarray \<times> int) list
     \<Rightarrow> world \<Rightarrow> world \<times> error option" where
  "run_engagement str_float path fs t0 ticks w =
     (if win_len_of fs < 8 then (w, Some RuntimeError)
      else
        case run_loop path fs ticks (run_vars_init t0 (load_norm_state str_float w path), w) of
          ((v, w1), e) \<Rightarrow> (w1, e))"

section \<open>Reference notions of the specification\<close>

text \<open>
  The most recent samples of a sequence up to a bound: all of them when there are at
  most \<open>bound\<close>, the last \<open>bound\<close> otherwise.
\<close>

definition most_recent :: "nat \<Rightarrow> 'a list \<Rightarrow> 'a list" where
  "most_recent bound xs = drop (length xs - bound) xs"

text \<open>The retention bound of the window buffer.\<close>

definition retention_bound :: "nat \<Rightarrow> nat \<Rightarrow> nat" where
  "retention_bound window_length sampling_rate =
     max (2 * window_length) (window_length + sampling_rate)"

section \<open>Initial state and invariant of the bridge\<close>

text \<open>The shared state after \<^verbatim>\<open>EEGBridge.__init__\<close>.\<close>

definition bridge_init :: bridge where
  "bridge_init =
     \<lparr>clients = [], mode = ''normal'', norm_st = NormState_init,
      inbox = (\<lambda>c. []), closed = {}\<rparr>"

text \<open>
  The bounds that occur in a run: either none yet, or two finite numbers in order.
\<close>

definition norm_inv :: "NormState \<Rightarrow> bool" where
  "norm_inv s =
     (case (Emin s, Emax s) of
        (PInf, NInf) \<Rightarrow> True
      | (Fin lo, Fin hi) \<Rightarrow> lo \<le> hi
      | _ \<Rightarrow> False)"

section \<open>Properties of the normalizer\<close>

lemma normalize_E_total:
  "\<exists>r. normalize_E s E = Inr (Fin r) \<and> 0 \<le> r \<and> r \<le> 1"
proof (cases "fgt (Emax s) (Emin s)")
  case False
  then show ?thesis
    by (auto simp: normalize_E_def py_max_def py_min_def fgt_def intro: exI [of _ "1/2"])
next
  case True
  then have nz: "fsub (Emax s) (Emin s) \<noteq> Fin 0"
    by (cases "Emax s"; cases "Emin s") (simp_all add: fgt_def)
  obtain q where q: "fdiv (fsub E (Emin s)) (fsub (Emax s) (Emin s)) = Inr q"
    using nz by (cases "fsub (Emax s) (Emin s)"; cases "fsub E (Emin s)") auto
  show ?thesis
    using True q by (cases q) (auto simp: normalize_E_def py_max_def py_min_def fgt_def)
qed

lemma update_fin:
  "update \<lparr>Emin = Fin lo, Emax = Fin hi\<rparr> (Fin v)
     = \<lparr>Emin = Fin (min v lo), Emax = Fin (max v hi)\<rparr>"
  by (auto simp: update_def fgt_def min_def max_def)

lemma observe_all_fin:
  "observe_all \<lparr>Emin = Fin lo, Emax = Fin hi\<rparr> (map Fin vs)
     = \<lparr>Emin = Fin (fold min vs lo), Emax = Fin (fold max vs hi)\<rparr>"
  unfolding observe_all_def
  by (induction vs arbitrary: lo hi) (simp_all add: update_fin)

lemma update_init:
  "update NormState_init (Fin v) = \<lparr>Emin = Fin v, Emax = Fin v\<rparr>"
  by (simp add: update_def NormState_init_def fgt_def)

lemma observe_all_init:
  "vs \<noteq> [] \<Longrightarrow> observe_all NormState_init (map Fin vs)
     = \<lparr>Emin = Fin (Min (set vs)), Emax = Fin (Max (set vs))\<rparr>"
proof (cases vs)
  case Nil
  then show "vs \<noteq> [] \<Longrightarrow> ?thesis" by simp
next
  case (Cons v ws)
  have "observe_all NormState_init (map Fin (v # ws))
          = observe_all \<lparr>Emin = Fin v, Emax = Fin v\<rparr> (map Fin ws)"
    by (simp add: observe_all_def update_init)
  then show ?thesis
    using Min.set_eq_fold [of v ws] Max.set_eq_fold [of v ws]
    by (simp add: Cons observe_all_fin)
qed

lemma update_monotone:
  "(Emin (update s v) = Emin s \<or> flt (Emin (update s v)) (Emin s))
   \<and> (Emax (update s v) = Emax s \<or> fgt (Emax (update s v)) (Emax s))"
  by (auto simp: update_def fgt_def Let_def)

text \<open>
  Claim C3. Starting from the uninitialized state, after any non-empty sequence of
  observations the lower bound is the minimum and the upper bound the maximum of the
  observed values (and after none the state is still uninitialized); a single
  observation of any float leaves the lower bound as it is or makes it smaller, and
  leaves the upper bound as it is or makes it larger; \<^verbatim>\<open>reset\<close> gives the
  uninitialized state.
\<close>

theorem observe_monotone:
  "(vs \<noteq> [] \<longrightarrow>
      observe_all NormState_init (map Fin vs)
        = \<lparr>Emin = Fin (Min (set vs)), Emax = Fin (Max (set vs))\<rparr>)
   \<and> observe_all NormState_init [] = \<lparr>Emin = PInf, Emax = NInf\<rparr>
   \<and> (Emin (update s v) = Emin s \<or> flt (Emin (update s v)) (Emin s))
   \<and> (Emax (update s v) = Emax s \<or> fgt (Emax (update s v)) (Emax s))
   \<and> reset s = \<lparr>Emin = PInf, Emax = NInf\<rparr>"
  using observe_all_init [of vs] update_monotone [of s v]
  by (simp add: observe_all_def NormState_init_def reset_def)

theorem observe_monotone_witness:
  "observe_all NormState_init (map Fin [3, 1, 2]) = \<lparr>Emin = Fin 1, Emax = Fin 3\<rparr>
   \<and> update \<lparr>Emin = Fin 1, Emax = Fin 3\<rparr> (Fin 0) = \<lparr>Emin = Fin 0, Emax = Fin 3\<rparr>
   \<and> update \<lparr>Emin = Fin 1, Emax = Fin 3\<rparr> NaN = \<lparr>Emin = Fin 1, Emax = Fin 3\<rparr>
   \<and> reset \<lparr>Emin = Fin 1, Emax = Fin 3\<rparr> = NormState_init"
  using observe_monotone [of "[3, 1, 2]" "\<lparr>Emin = Fin 1, Emax = Fin 3\<rparr>" "Fin 0"]
  by (simp add: update_def fgt_def NormState_init_def)

lemma normalize_E_finite:
  "lo < hi \<Longrightarrow> normalize_E \<lparr>Emin = Fin lo, Emax = Fin hi\<rparr> (Fin e)
     = Inr (Fin (max 0 (min 1 ((e - lo) / (hi - lo)))))"
  by (auto simp: normalize_E_def fgt_def py_max_def py_min_def max_def min_def)

lemma normalize_E_midpoint:
  "\<not> fgt (Emax s) (Emin s) \<Longrightarrow> normalize_E s x = Inr (Fin (1/2))"
  by (simp add: normalize_E_def py_max_def py_min_def fgt_def)

lemma not_fgt_self: "\<not> fgt a a"
  by (cases a) (simp_all add: fgt_def)

text \<open>
  Claim C2. With finite bounds \<open>lo < hi\<close> the normalized value of a finite \<open>e\<close> is
  \<open>(e - lo) / (hi - lo)\<close> clamped to \<open>[0, 1]\<close>; it is 0 at the lower bound and 1 at
  the upper bound. For every state and every float the computation raises nothing and
  its result is a finite number in \<open>[0, 1]\<close>. Whenever \<^verbatim>\<open>Emax > Emin\<close> does not
  hold, in particular for equal bounds, in the initial state and after \<^verbatim>\<open>reset\<close>,
  the result is exactly one half for every input.
\<close>

theorem normalize_E_spec:
  "(lo < hi \<longrightarrow>
      normalize_E \<lparr>Emin = Fin lo, Emax = Fin hi\<rparr> (Fin e)
        = Inr (Fin (max 0 (min 1 ((e - lo) / (hi - lo)))))
      \<and> normalize_E \<lparr>Emin = Fin lo, Emax = Fin hi\<rparr> (Fin lo) = Inr (Fin 0)
      \<and> normalize_E \<lparr>Emin = Fin lo, Emax = Fin hi\<rparr> (Fin hi) = Inr (Fin 1))
   \<and> (\<exists>r. normalize_E s x = Inr (Fin r) \<and> 0 \<le> r \<and> r \<le> 1)
   \<and> (\<not> fgt (Emax s) (Emin s) \<longrightarrow> normalize_E s x = Inr (Fin (1/2)))
   \<and> (Emax s = Emin s \<longrightarrow> normalize_E s x = Inr (Fin (1/2)))
   \<and> normalize_E NormState_init x = Inr (Fin (1/2))
   \<and> normalize_E (reset s) x = Inr (Fin (1/2))"
proof -
  have a: "lo < hi \<Longrightarrow> normalize_E \<lparr>Emin = Fin lo, Emax = Fin hi\<rparr> (Fin lo) = Inr (Fin 0)"
    by (simp add: normalize_E_finite)
  have b: "lo < hi \<Longrightarrow> normalize_E \<lparr>Emin = Fin lo, Emax = Fin hi\<rparr> (Fin hi) = Inr (Fin 1)"
    by (simp add: normalize_E_finite)
  have c: "Emax s = Emin s \<Longrightarrow> normalize_E s x = Inr (Fin (1/2))"
    using not_fgt_self [of "Emin s"] by (simp add: normalize_E_midpoint)
  have d: "normalize_E NormState_init x = Inr (Fin (1/2))"
    by (rule normalize_E_midpoint) (simp add: NormState_init_def fgt_def)
  have e: "normalize_E (reset s) x = Inr (Fin (1/2))"
    by (rule normalize_E_midpoint) (simp add: reset_def fgt_def)
  show ?thesis
    using a b c d e normalize_E_finite [of lo hi e] normalize_E_total [of s x]
      normalize_E_midpoint [of s x]
    by blast
qed

theorem normalize_E_spec_witness:
  "normalize_E \<lparr>Emin = Fin 1, Emax = Fin 3\<rparr> (Fin 2) = Inr (Fin (1/2))
   \<and> normalize_E \<lparr>Emin = Fin 1, Emax = Fin 3\<rparr> (Fin 1) = Inr (Fin 0)
   \<and> normalize_E \<lparr>Emin = Fin 1, Emax = Fin 3\<rparr> (Fin 3) = Inr (Fin 1)
   \<and> normalize_E \<lparr>Emin = Fin 2, Emax = Fin 2\<rparr> (Fin 7) = Inr (Fin (1/2))
   \<and> normalize_E \<lparr>Emin = PInf, Emax = NInf\<rparr> (Fin 7) = Inr (Fin (1/2))"
  using normalize_E_spec [of 1 3 2 "\<lparr>Emin = Fin 2, Emax = Fin 2\<rparr>" "Fin 7"]
    normalize_E_spec [of 1 3 2 "\<lparr>Emin = PInf, Emax = NInf\<rparr>" "Fin 7"]
  by (simp add: fgt_def)

section \<open>Properties of the acquisition step\<close>

lemma win_len_of_eq: "win_len_of fs = fs"
  by (simp add: win_len_of_def WINDOW_S_def)

lemma pull_step_next_pull:
  "next_pull v \<le> now \<Longrightarrow> pull_step fs wl now X v = Inr v'
     \<Longrightarrow> next_pull v' = advance_pull now (next_pull v)"
  by (auto simp: pull_step_def split: if_splits sum.splits)

text \<open>
  Claim C5. A tick at time \<open>now\<close> that has reached the pull instant and completes
  moves the instant forward by one pull period; when \<open>now\<close> lies more than one period
  past the instant so advanced, the instant is set to \<open>now\<close> instead. In both cases the
  new instant is later than the old one and is at most one period behind \<open>now\<close>, so no
  backlog of overdue pulls builds up.
\<close>

theorem pull_drift_correction:
  assumes "next_pull v \<le> now" and "pull_step fs wl now X v = Inr v'"
  shows "next_pull v' =
           (if now - (next_pull v + EEG_PULL_PERIOD_S) > EEG_PULL_PERIOD_S
            then now else next_pull v + EEG_PULL_PERIOD_S)
         \<and> next_pull v < next_pull v'
         \<and> now - next_pull v' \<le> EEG_PULL_PERIOD_S"
  using pull_step_next_pull [OF assms]
  by (auto simp: advance_pull_def Let_def EEG_PULL_PERIOD_S_def)

theorem pull_drift_correction_witness:
  "next_pull (loop_vars_init 0) \<le> 1
   \<and> pull_step 125 125 1 [] (loop_vars_init 0) = Inr ((loop_vars_init 0)\<lparr>next_pull := 1\<rparr>)
   \<and> next_pull ((loop_vars_init 0)\<lparr>next_pull := 1\<rparr>) = 1
   \<and> pull_step 125 125 (1/10) [] (loop_vars_init 0)
        = Inr ((loop_vars_init 0)\<lparr>next_pull := 2/10\<rparr>)"
  using pull_drift_correction [of "loop_vars_init 0" 1 125 125 "[]"
      "(loop_vars_init 0)\<lparr>next_pull := 1\<rparr>"]
  by (simp add: pull_step_def loop_vars_init_def advance_pull_def nrows_def
      EEG_PULL_PERIOD_S_def)

lemma last_rows_most_recent: "0 < k \<Longrightarrow> last_rows k xs = most_recent k xs"
  by (simp add: last_rows_def most_recent_def)

lemma buffer_append_later:
  assumes "asize bf \<noteq> 0" and "ncols bf = ncols X" and "0 < win_len"
  shows "buffer_append win_len fs bf X
           = Inr (most_recent (retention_bound win_len fs) (bf @ X))"
proof -
  have "0 < max (win_len * 2) (win_len + fs)" using assms(3) by simp
  then show ?thesis
    using assms(1,2)
    by (simp add: buffer_append_def vstack_def Let_def last_rows_most_recent
        retention_bound_def mult.commute)
qed

lemma buffer_append_first:
  assumes "asize bf = 0" and "0 < win_len"
  shows "buffer_append win_len fs bf X = Inr (most_recent win_len X)"
  using assms
  by (simp add: buffer_append_def last_rows_most_recent nrows_def)
     (simp add: most_recent_def)

text \<open>
  Claim C6, as amended. A pull that delivers a non-empty block, with a positive
  window length, leaves in the buffer: when the buffer already held samples (of the
  same channel count), the most recent samples of the old buffer followed by the block,
  up to the retention bound \<open>max (2 * win_len) (win_len + fs)\<close>; when the buffer held
  nothing (the very first block), the most recent samples of the block up to the window
  length. The sample counter grows by the length of the block.
\<close>

theorem buffer_retention:
  assumes "next_pull v \<le> now" and "X \<noteq> []" and "0 < win_len"
    and "asize (buf v) \<noteq> 0 \<longrightarrow> ncols (buf v) = ncols X"
  shows "\<exists>v'. pull_step fs win_len now X v = Inr v'
           \<and> buf v' = (if asize (buf v) = 0 then most_recent win_len X
                       else most_recent (retention_bound win_len fs) (buf v @ X))
           \<and> global_idx v' = global_idx v + length X"
proof (cases "asize (buf v) = 0")
  case True
  then show ?thesis
    using assms(1,2,3) by (simp add: pull_step_def nrows_def buffer_append_first)
next
  case False
  then show ?thesis
    using assms by (simp add: pull_step_def nrows_def buffer_append_later)
qed

theorem buffer_retention_witness:
  "pull_step 2 2 0 [[5], [6], [7]] ((loop_vars_init 0)\<lparr>buf := [[1], [2], [3], [4]]\<rparr>)
     = Inr ((loop_vars_init 0)\<lparr>global_idx := 3, buf := [[4], [5], [6], [7]],
                                next_pull := 2/10\<rparr>)
   \<and> most_recent (retention_bound 2 2) ([[1], [2], [3], [4]] @ [[5], [6], [7]])
        = [[4], [5], [6], [7 :: real]]
   \<and> pull_step 2 2 0 [[5], [6], [7]] (loop_vars_init 0)
     = Inr ((loop_vars_init 0)\<lparr>global_idx := 3, buf := [[6], [7]], next_pull := 2/10\<rparr>)"
  using buffer_retention [of "(loop_vars_init 0)\<lparr>buf := [[1], [2], [3], [4]]\<rparr>" 0
      "[[5], [6], [7]]" 2 2]
    buffer_retention [of "loop_vars_init 0" 0 "[[5], [6], [7]]" 2 2]
  by (simp add: pull_step_def loop_vars_init_def buffer_append_def vstack_def nrows_def
      ncols_def asize_def last_rows_def most_recent_def retention_bound_def
      advance_pull_def EEG_PULL_PERIOD_S_def)

text \<open>
  The claim as stated fails on the first block: with a sampling rate of 8 (window
  length 8, retention bound 16) a first block of 9 samples is within the bound, yet
  only its last 8 samples are kept.
\<close>

theorem buffer_first_block_counterexample:
  "pull_step 8 (win_len_of 8) 0 [[1], [2], [3], [4], [5], [6], [7], [8], [9]]
       (loop_vars_init 0)
     = Inr ((loop_vars_init 0)\<lparr>global_idx := 9,
              buf := [[2], [3], [4], [5], [6], [7], [8], [9]], next_pull := 2/10\<rparr>)
   \<and> [[2], [3], [4], [5], [6], [7], [8], [9 :: real]]
       \<noteq> most_recent (retention_bound (win_len_of 8) 8)
           (buf (loop_vars_init 0) @ [[1], [2], [3], [4], [5], [6], [7], [8], [9]])"
  by (simp add: pull_step_def loop_vars_init_def buffer_append_def nrows_def
      ncols_def asize_def last_rows_def most_recent_def retention_bound_def
      advance_pull_def EEG_PULL_PERIOD_S_def win_len_of_def WINDOW_S_def)

section \<open>Properties of the broadcast hub\<close>

lemma safe_send_fields:
  "clients (fst (safe_send nt w m b))
     = (if w \<in> send_fails nt then discard w (clients b) else clients b)"
  "inbox (fst (safe_send nt w m b))
     = (if w \<in> send_fails nt then inbox b else (inbox b)(w := inbox b w @ [m]))"
  "closed (fst (safe_send nt w m b))
     = (if w \<in> send_fails nt \<and> w \<notin> close_fails nt then insert w (closed b) else closed b)"
  "mode (fst (safe_send nt w m b)) = mode b"
  "norm_st (fst (safe_send nt w m b)) = norm_st b"
  "snd (safe_send nt w m b)
     = (if w \<in> send_fails nt \<and> w \<in> close_fails nt then Some ConnectionClosed else None)"
  by (simp_all add: safe_send_def)

lemma gather_sends_Cons:
  "gather_sends nt m (w # ws) b
     = (if snd (safe_send nt w m b) = None
        then gather_sends nt m ws (fst (safe_send nt w m b))
        else safe_send nt w m b)"
  by (cases "safe_send nt w m b") (auto split: option.splits)

lemma gather_error:
  "snd (gather_sends nt m ws b)
     = (if set ws \<inter> send_fails nt \<inter> close_fails nt = {} then None
        else Some ConnectionClosed)"
proof (induction ws arbitrary: b)
  case Nil
  then show ?case by simp
next
  case (Cons w ws)
  show ?case
    unfolding gather_sends_Cons by (auto simp: Cons.IH safe_send_fields)
qed

lemma gather_unchanged:
  "mode (fst (gather_sends nt m ws b)) = mode b
   \<and> norm_st (fst (gather_sends nt m ws b)) = norm_st b"
proof (induction ws arbitrary: b)
  case Nil
  then show ?case by simp
next
  case (Cons w ws)
  show ?case
    unfolding gather_sends_Cons
    using Cons.IH [of "fst (safe_send nt w m b)"]
    by (simp add: safe_send_fields)
qed

lemma gather_distinct:
  "distinct (clients b) \<Longrightarrow> distinct (clients (fst (gather_sends nt m ws b)))"
proof (induction ws arbitrary: b)
  case Nil
  then show ?case by simp
next
  case (Cons w ws)
  have d: "distinct (clients (fst (safe_send nt w m b)))"
    using Cons.prems by (simp add: safe_send_fields discard_def distinct_removeAll)
  show ?case
    unfolding gather_sends_Cons using d Cons.IH [OF d] by simp
qed

lemma gather_inbox_notin:
  "c \<notin> set ws \<Longrightarrow> inbox (fst (gather_sends nt m ws b)) c = inbox b c"
proof (induction ws arbitrary: b)
  case Nil
  then show ?case by simp
next
  case (Cons w ws)
  then have c: "c \<notin> set ws" "c \<noteq> w" by auto
  show ?case
    unfolding gather_sends_Cons using c by (simp add: Cons.IH [OF c(1)] safe_send_fields)
qed

text \<open>Whether or not the broadcast raises, a connection receives the message at most
  once and nothing else.\<close>

lemma gather_inbox_any:
  "distinct ws \<Longrightarrow>
   inbox (fst (gather_sends nt m ws b)) c = inbox b c
   \<or> inbox (fst (gather_sends nt m ws b)) c = inbox b c @ [m]"
proof (induction ws arbitrary: b)
  case Nil
  then show ?case by simp
next
  case (Cons w ws)
  then have d: "distinct ws" and w: "w \<notin> set ws" by simp_all
  show ?case
  proof (cases "c = w")
    case True
    then show ?thesis
      unfolding gather_sends_Cons
      using gather_inbox_notin [OF w, of nt m "fst (safe_send nt w m b)"]
      by (auto simp: safe_send_fields)
  next
    case False
    then have e: "inbox (fst (safe_send nt w m b)) c = inbox b c"
      by (simp add: safe_send_def)
    show ?thesis
      unfolding gather_sends_Cons
      using Cons.IH [OF d, of "fst (safe_send nt w m b)", unfolded e] e
      by (cases "snd (safe_send nt w m b) = None") simp_all
  qed
qed

text \<open>When no \<^verbatim>\<open>close\<close> raises, every send runs to its end.\<close>

lemma gather_clients:
  "set ws \<inter> send_fails nt \<inter> close_fails nt = {} \<Longrightarrow>
   clients (fst (gather_sends nt m ws b))
     = filter (\<lambda>c. c \<notin> set ws \<inter> send_fails nt) (clients b)"
proof (induction ws arbitrary: b)
  case Nil
  then show ?case by simp
next
  case (Cons w ws)
  then have ok: "set ws \<inter> send_fails nt \<inter> close_fails nt = {}"
    and w: "\<not> (w \<in> send_fails nt \<and> w \<in> close_fails nt)" by auto
  show ?case
    unfolding gather_sends_Cons using w
    by (auto simp: Cons.IH [OF ok] safe_send_fields discard_def removeAll_filter_not_eq
        intro!: filter_cong)
qed

lemma gather_inbox:
  "set ws \<inter> send_fails nt \<inter> close_fails nt = {} \<Longrightarrow> distinct ws \<Longrightarrow>
   inbox (fst (gather_sends nt m ws b)) c
     = (if c \<in> set ws \<and> c \<notin> send_fails nt then inbox b c @ [m] else inbox b c)"
proof (induction ws arbitrary: b)
  case Nil
  then show ?case by simp
next
  case (Cons w ws)
  then have ok: "set ws \<inter> send_fails nt \<inter> close_fails nt = {}"
    and nr: "\<not> (w \<in> send_fails nt \<and> w \<in> close_fails nt)"
    and d: "distinct ws" and w: "w \<notin> set ws" by auto
  show ?case
    unfolding gather_sends_Cons using nr w
    by (auto simp: Cons.IH [OF ok d] safe_send_fields)
qed

lemma gather_closed:
  "set ws \<inter> send_fails nt \<inter> close_fails nt = {} \<Longrightarrow>
   closed (fst (gather_sends nt m ws b)) = closed b \<union> (set ws \<inter> send_fails nt)"
proof (induction ws arbitrary: b)
  case Nil
  then show ?case by simp
next
  case (Cons w ws)
  then have ok: "set ws \<inter> send_fails nt \<inter> close_fails nt = {}"
    and nr: "\<not> (w \<in> send_fails nt \<and> w \<in> close_fails nt)" by auto
  show ?case
    unfolding gather_sends_Cons using nr
    by (auto simp: Cons.IH [OF ok] safe_send_fields)
qed

lemma broadcast_gather:
  "broadcast nt m b = gather_sends nt m (clients b) b"
  by (simp add: broadcast_def)


lemma broadcast_inbox:
  "set (clients b) \<inter> send_fails nt \<inter> close_fails nt = {} \<Longrightarrow> distinct (clients b) \<Longrightarrow>
   inbox (fst (broadcast nt m b)) c
     = (if c \<in> set (clients b) \<and> c \<notin> send_fails nt then inbox b c @ [m] else inbox b c)"
  by (simp add: broadcast_gather gather_inbox)

lemma broadcast_inbox_any:
  "distinct (clients b) \<Longrightarrow>
   inbox (fst (broadcast nt m b)) c = inbox b c
   \<or> inbox (fst (broadcast nt m b)) c = inbox b c @ [m]"
  unfolding broadcast_gather by (rule gather_inbox_any)

lemma broadcast_unchanged:
  "mode (fst (broadcast nt m b)) = mode b" "norm_st (fst (broadcast nt m b)) = norm_st b"
  by (simp_all add: broadcast_gather gather_unchanged)

lemma broadcast_distinct:
  "distinct (clients b) \<Longrightarrow> distinct (clients (fst (broadcast nt m b)))"
  unfolding broadcast_gather by (rule gather_distinct)

text \<open>
  What the hub does achieve: when exactly one of the \<open>N\<close> subscribers, \<open>f\<close>, fails
  on \<^verbatim>\<open>send\<close> and its \<^verbatim>\<open>close\<close> returns, each of the other \<open>N - 1\<close> receives
  the message, \<open>f\<close> receives nothing, is removed from the subscriber set and closed,
  the rest of the shared state is untouched and the broadcast returns normally.
\<close>

lemma broadcast_contains_send_failure:
  assumes "distinct (clients b)" and "set (clients b) \<inter> send_fails nt = {f}"
    and "f \<notin> close_fails nt"
  shows "snd (broadcast nt m b) = None
         \<and> (\<forall>c \<in> set (clients b) - {f}. inbox (fst (broadcast nt m b)) c = inbox b c @ [m])
         \<and> inbox (fst (broadcast nt m b)) f = inbox b f
         \<and> clients (fst (broadcast nt m b)) = removeAll f (clients b)
         \<and> closed (fst (broadcast nt m b)) = insert f (closed b)
         \<and> mode (fst (broadcast nt m b)) = mode b
         \<and> norm_st (fst (broadcast nt m b)) = norm_st b"
proof -
  have f: "f \<in> set (clients b)" "f \<in> send_fails nt" using assms(2) by auto
  have others: "c \<in> set (clients b) \<Longrightarrow> c \<noteq> f \<Longrightarrow> c \<notin> send_fails nt" for c
    using assms(2) by auto
  have ok: "set (clients b) \<inter> send_fails nt \<inter> close_fails nt = {}"
    using assms(2,3) by auto
  have e: "snd (broadcast nt m b) = None"
    using ok by (simp add: broadcast_gather gather_error)
  have i1: "\<forall>c \<in> set (clients b) - {f}. inbox (fst (broadcast nt m b)) c = inbox b c @ [m]"
    using others by (simp add: broadcast_inbox [OF ok assms(1)])
  have i2: "inbox (fst (broadcast nt m b)) f = inbox b f"
    using f by (simp add: broadcast_inbox [OF ok assms(1)])
  have c: "clients (fst (broadcast nt m b)) = removeAll f (clients b)"
    using f others
    by (auto simp: broadcast_gather gather_clients [OF ok] removeAll_filter_not_eq
        intro!: filter_cong)
  have cl: "closed (fst (broadcast nt m b)) = insert f (closed b)"
    using assms(2) by (simp add: broadcast_gather gather_closed [OF ok])
  show ?thesis
    using e i1 i2 c cl by (simp add: broadcast_unchanged)
qed

lemma broadcast_contains_send_failure_example:
  "snd (broadcast \<lparr>send_fails = {2}, close_fails = {}\<rparr> (Calibration ''relax'')
            (bridge_init\<lparr>clients := [1, 2, 3]\<rparr>)) = None
   \<and> inbox (fst (broadcast \<lparr>send_fails = {2}, close_fails = {}\<rparr> (Calibration ''relax'')
            (bridge_init\<lparr>clients := [1, 2, 3]\<rparr>))) 1 = [Calibration ''relax'']
   \<and> inbox (fst (broadcast \<lparr>send_fails = {2}, close_fails = {}\<rparr> (Calibration ''relax'')
            (bridge_init\<lparr>clients := [1, 2, 3]\<rparr>))) 2 = []
   \<and> inbox (fst (broadcast \<lparr>send_fails = {2}, close_fails = {}\<rparr> (Calibration ''relax'')
            (bridge_init\<lparr>clients := [1, 2, 3]\<rparr>))) 3 = [Calibration ''relax'']
   \<and> clients (fst (broadcast \<lparr>send_fails = {2}, close_fails = {}\<rparr> (Calibration ''relax'')
            (bridge_init\<lparr>clients := [1, 2, 3]\<rparr>))) = [1, 3]
   \<and> closed (fst (broadcast \<lparr>send_fails = {2}, close_fails = {}\<rparr> (Calibration ''relax'')
            (bridge_init\<lparr>clients := [1, 2, 3]\<rparr>))) = {2}"
  using broadcast_contains_send_failure [of "bridge_init\<lparr>clients := [1, 2, 3]\<rparr>"
      "\<lparr>send_fails = {2}, close_fails = {}\<rparr>" 2 "Calibration ''relax''"]
  by (simp add: bridge_init_def)

text \<open>
  Claim C7 does not hold of \<^verbatim>\<open>_safe_send\<close> when the connection whose \<^verbatim>\<open>send\<close>
  failed also fails to close. The handler of the failed send closes the connection in
  a \<^verbatim>\<open>try\<close> with a \<^verbatim>\<open>finally\<close> and no \<^verbatim>\<open>except\<close>, so the exception of
  \<^verbatim>\<open>close\<close> leaves \<^verbatim>\<open>_safe_send\<close> and the broadcast raises it to its caller.
  With subscribers 1, 2 and 3, where 2 fails to send and to close: when the send to 2
  is the first to finish, the broadcast raises while 1 and 3 have received nothing;
  when the send to 1 finishes before it, 1 has the message and 3 has not.
\<close>

theorem broadcast_close_raises:
  "snd (broadcast \<lparr>send_fails = {2}, close_fails = {2}\<rparr> (Calibration ''relax'')
          (bridge_init\<lparr>clients := [2, 1, 3]\<rparr>)) = Some ConnectionClosed
   \<and> inbox (fst (broadcast \<lparr>send_fails = {2}, close_fails = {2}\<rparr> (Calibration ''relax'')
          (bridge_init\<lparr>clients := [2, 1, 3]\<rparr>))) 1 = []
   \<and> inbox (fst (broadcast \<lparr>send_fails = {2}, close_fails = {2}\<rparr> (Calibration ''relax'')
          (bridge_init\<lparr>clients := [2, 1, 3]\<rparr>))) 3 = []
   \<and> clients (fst (broadcast \<lparr>send_fails = {2}, close_fails = {2}\<rparr> (Calibration ''relax'')
          (bridge_init\<lparr>clients := [2, 1, 3]\<rparr>))) = [1, 3]
   \<and> snd (broadcast \<lparr>send_fails = {2}, close_fails = {2}\<rparr> (Calibration ''relax'')
          (bridge_init\<lparr>clients := [1, 2, 3]\<rparr>)) = Some ConnectionClosed
   \<and> inbox (fst (broadcast \<lparr>send_fails = {2}, close_fails = {2}\<rparr> (Calibration ''relax'')
          (bridge_init\<lparr>clients := [1, 2, 3]\<rparr>))) 1 = [Calibration ''relax'']
   \<and> inbox (fst (broadcast \<lparr>send_fails = {2}, close_fails = {2}\<rparr> (Calibration ''relax'')
          (bridge_init\<lparr>clients := [1, 2, 3]\<rparr>))) 3 = []"
  by (simp add: bridge_init_def broadcast_def safe_send_def discard_def)

section \<open>Properties of the control protocol\<close>

text \<open>
  The three kinds of malformed message that the handler does ignore: a text that is
  not JSON, an object whose \<^verbatim>\<open>type\<close> is none of the three kinds, and a
  \<^verbatim>\<open>set_mode\<close> object whose \<^verbatim>\<open>mode\<close> is not one of the three modes. The state is
  unchanged (so nothing was sent to anyone) and the loop goes on with the next message.
\<close>

lemma handle_message_ignores:
  "handle_message nt NotJSON b = (b, None)"
  "dict_get kvs ''type'' \<noteq> JStr ''subscribe'' \<Longrightarrow>
   dict_get kvs ''type'' \<noteq> JStr ''set_mode'' \<Longrightarrow>
   dict_get kvs ''type'' \<noteq> JStr ''reset_norm'' \<Longrightarrow>
   handle_message nt (Payload (JObj kvs)) b = (b, None)"
  "dict_get kvs ''type'' = JStr ''set_mode'' \<Longrightarrow>
   dict_get kvs ''mode'' \<notin> JStr ` set valid_modes \<Longrightarrow>
   handle_message nt (Payload (JObj kvs)) b = (b, None)"
  by (auto simp: handle_message_def Let_def split: json.splits)

lemma handler_loop_ignores:
  "handle_message nt m b = (b, None) \<Longrightarrow> handler_loop nt (m # ms) b = handler_loop nt ms b"
  by simp

text \<open>
  Claim C8 does not hold of the handler for a message that is valid JSON but not an
  object, such as \<^verbatim>\<open>[]\<close>, nor for a binary frame that is not UTF-8, nor for a
  text on which \<^verbatim>\<open>json.loads\<close> raises anything but \<^verbatim>\<open>JSONDecodeError\<close>: the
  exception is not caught, the handler ends, the sender is unregistered and the messages that
  follow are never read. Here the second message, a valid \<^verbatim>\<open>set_mode\<close>, takes effect
  after a text that is not JSON and is lost after \<^verbatim>\<open>[]\<close>.
\<close>

theorem handler_non_object_payload:
  "handle_message nt (Payload (JArr [])) b = (b, Some AttributeError)
   \<and> handle_message nt NotText b = (b, Some UnicodeDecodeError)
   \<and> handle_message nt (Unloadable RecursionError) b = (b, Some RecursionError)
   \<and> snd (handler \<lparr>send_fails = {}, close_fails = {}\<rparr> 1
        [Payload (JArr []),
         Payload (JObj [(''type'', JStr ''set_mode''), (''mode'', JStr ''relax'')])]
        (bridge_init\<lparr>clients := [2]\<rparr>)) = Some AttributeError
   \<and> mode (fst (handler \<lparr>send_fails = {}, close_fails = {}\<rparr> 1
        [Payload (JArr []),
         Payload (JObj [(''type'', JStr ''set_mode''), (''mode'', JStr ''relax'')])]
        (bridge_init\<lparr>clients := [2]\<rparr>))) = ''normal''
   \<and> snd (handler \<lparr>send_fails = {}, close_fails = {}\<rparr> 1
        [NotJSON,
         Payload (JObj [(''type'', JStr ''set_mode''), (''mode'', JStr ''relax'')])]
        (bridge_init\<lparr>clients := [2]\<rparr>)) = None
   \<and> mode (fst (handler \<lparr>send_fails = {}, close_fails = {}\<rparr> 1
        [NotJSON,
         Payload (JObj [(''type'', JStr ''set_mode''), (''mode'', JStr ''relax'')])]
        (bridge_init\<lparr>clients := [2]\<rparr>))) = ''relax''"
  by (simp add: handle_message_def handler_def bridge_init_def add_client_def discard_def
      dict_get_def dict_get_default_def valid_modes_def broadcast_def safe_send_def)

section \<open>Properties of the gate\<close>

lemma bandpower_total:
  "fs \<noteq> 0 \<Longrightarrow> \<exists>p. bandpower_hann_rfft x fs lo hi = Inr p"
  by (simp add: bandpower_hann_rfft_def Let_def)

lemma channel_loop_total:
  "fs \<noteq> 0 \<Longrightarrow> \<exists>r. channel_loop win fs cs acc = Inr r"
proof (induction win fs cs acc rule: channel_loop.induct)
  case (1 win fs acc)
  then show ?case by (cases acc) auto
next
  case (2 win fs c cs theta_p alpha_p beta_p)
  obtain pt pa pb where
    "bandpower_hann_rfft (column win c) fs (fst THETA) (snd THETA) = Inr pt"
    "bandpower_hann_rfft (column win c) fs (fst ALPHA) (snd ALPHA) = Inr pa"
    "bandpower_hann_rfft (column win c) fs (fst BETA) (snd BETA) = Inr pb"
    using bandpower_total [OF "2.prems"] by meson
  then show ?case
    using "2.IH" [of "column win c" pt pa pb] "2.prems" by simp
qed

lemma engagement_total:
  "fs \<noteq> 0 \<Longrightarrow> \<exists>E a t b. engagement_from_window win fs = Inr (E, a, t, b)"
  using channel_loop_total [of fs win "[0..<ncols win]" "(0, 0, 0)"]
  by (auto simp: engagement_from_window_def Let_def split: prod.splits)






lemma ncols_replicate: "0 < n \<Longrightarrow> ncols (replicate n r) = length r"
  by (cases n) (simp_all add: ncols_def)



section \<open>Bounds in the messages\<close>

lemma norm_inv_init: "norm_inv NormState_init"
  by (simp add: norm_inv_def NormState_init_def)

lemma norm_inv_reset: "norm_inv (reset s)"
  by (simp add: norm_inv_def reset_def)

lemma norm_inv_update:
  assumes "norm_inv s"
  shows "\<exists>lo hi. Emin (update s (Fin e)) = Fin lo \<and> Emax (update s (Fin e)) = Fin hi
           \<and> lo \<le> e \<and> e \<le> hi"
  using assms
  by (cases "Emin s"; cases "Emax s")
     (auto simp: norm_inv_def update_def fgt_def Let_def)

lemma norm_inv_update_inv: "norm_inv s \<Longrightarrow> norm_inv (update s (Fin e))"
  using norm_inv_update [of s e] by (auto simp: norm_inv_def)

text \<open>What a gated step can do to the shared state.\<close>

lemma gate_step_bridge:
  "snd (fst (gate_step nt fs win_len ts (v, b))) = b
   \<or> (\<exists>E. snd (fst (gate_step nt fs win_len ts (v, b)))
              = b\<lparr>norm_st := update (norm_st b) (Fin E)\<rparr>)
   \<or> (\<exists>E En a t bt.
         snd (fst (gate_step nt fs win_len ts (v, b)))
           = fst (broadcast nt
                    (Engagement ts (real fs) (Fin E) En a t bt
                       (finite_or_none (Emin (update (norm_st b) (Fin E))))
                       (finite_or_none (Emax (update (norm_st b) (Fin E))))
                       (mode b))
                    (b\<lparr>norm_st := update (norm_st b) (Fin E)\<rparr>)))"
proof (cases "gate_due win_len v")
  case False
  then show ?thesis by (simp add: gate_step_def)
next
  case due: True
  show ?thesis
  proof (cases "engagement_from_window (last_rows win_len (buf v)) (real fs)")
    case (Inl e)
    then show ?thesis using due by (simp add: gate_step_def)
  next
    case (Inr res)
    obtain E a t bt where res: "res = (E, a, t, bt)" by (cases res) auto
    let ?b1 = "b\<lparr>norm_st := update (norm_st b) (Fin E)\<rparr>"
    obtain r where nz: "normalize_E (norm_st ?b1) (Fin E) = Inr (Fin r)"
      using normalize_E_total by blast
    show ?thesis
    proof (cases "fs = 0 \<or> int (global_idx v div fs) = last_sec v")
      case True
      then have "snd (fst (gate_step nt fs win_len ts (v, b))) = ?b1"
        using due Inr res nz by (auto simp: gate_step_def Let_def)
      then show ?thesis by blast
    next
      case False
      let ?msg = "Engagement ts (real fs) (Fin E) (Fin r) a t bt
               (finite_or_none (Emin (update (norm_st b) (Fin E))))
               (finite_or_none (Emax (update (norm_st b) (Fin E)))) (mode b)"
      have "snd (fst (gate_step nt fs win_len ts (v, b))) = fst (broadcast nt ?msg ?b1)"
        using due Inr res nz False
        by (cases "broadcast nt ?msg ?b1"; cases "snd (broadcast nt ?msg ?b1)")
           (auto simp: gate_step_def Let_def)
      then show ?thesis by blast
    qed
  qed
qed

text \<open>
  Claim C10. In a state whose bounds are those of a run (none yet, or two finite
  numbers in order) and whose subscribers are a set, whatever a gated step delivers to
  a connection \<open>c\<close> is appended to what \<open>c\<close> had received, and every message so
  delivered is an engagement message for a finite \<open>E\<close> whose \<^verbatim>\<open>Emin\<close> and
  \<^verbatim>\<open>Emax\<close> fields are finite numbers with \<open>Emin \<le> E \<le> Emax\<close>, never \<^verbatim>\<open>null\<close>.
  The bounds after the step are again those of a run.
\<close>

theorem engagement_bounds_finite:
  assumes "norm_inv (norm_st b)" and "distinct (clients b)"
  shows "(\<exists>msgs. inbox (snd (fst (gate_step nt fs win_len ts (v, b)))) c = inbox b c @ msgs
            \<and> (\<forall>m \<in> set msgs. \<exists>E En a t bt lo hi md.
                   m = Engagement ts (real fs) (Fin E) En a t bt
                         (Some (Fin lo)) (Some (Fin hi)) md
                   \<and> lo \<le> E \<and> E \<le> hi))
         \<and> norm_inv (norm_st (snd (fst (gate_step nt fs win_len ts (v, b)))))
         \<and> distinct (clients (snd (fst (gate_step nt fs win_len ts (v, b)))))"
proof -
  let ?b' = "snd (fst (gate_step nt fs win_len ts (v, b)))"
  consider (same) "?b' = b"
    | (upd) E where "?b' = b\<lparr>norm_st := update (norm_st b) (Fin E)\<rparr>"
    | (sent) E En a t bt where
        "?b' = fst (broadcast nt
                    (Engagement ts (real fs) (Fin E) En a t bt
                       (finite_or_none (Emin (update (norm_st b) (Fin E))))
                       (finite_or_none (Emax (update (norm_st b) (Fin E))))
                       (mode b))
                    (b\<lparr>norm_st := update (norm_st b) (Fin E)\<rparr>))"
    using gate_step_bridge [of nt fs win_len ts v b] by blast
  then show ?thesis
  proof cases
    case same
    then show ?thesis using assms by simp
  next
    case upd
    then show ?thesis using assms norm_inv_update_inv [OF assms(1)] by simp
  next
    case sent
    obtain lo hi where
      b: "Emin (update (norm_st b) (Fin E)) = Fin lo" "Emax (update (norm_st b) (Fin E)) = Fin hi"
        "lo \<le> E" "E \<le> hi"
      using norm_inv_update [OF assms(1)] by blast
    let ?b1 = "b\<lparr>norm_st := update (norm_st b) (Fin E)\<rparr>"
    let ?msg = "Engagement ts (real fs) (Fin E) En a t bt (Some (Fin lo)) (Some (Fin hi)) (mode b)"
    have eq: "?b' = fst (broadcast nt ?msg ?b1)"
      using sent b by (simp add: finite_or_none_def)
    have d1: "distinct (clients ?b1)" using assms(2) by simp
    have "inbox ?b' c = inbox b c @ [] \<or> inbox ?b' c = inbox b c @ [?msg]"
      unfolding eq using broadcast_inbox_any [OF d1, of nt ?msg c] by simp
    then obtain msgs where "inbox ?b' c = inbox b c @ msgs" "set msgs \<subseteq> {?msg}"
      by fastforce
    moreover have "\<exists>E En a t bt lo hi md.
                       ?msg = Engagement ts (real fs) (Fin E) En a t bt
                             (Some (Fin lo)) (Some (Fin hi)) md
                       \<and> lo \<le> E \<and> E \<le> hi"
      using b(3,4) by blast
    moreover have "norm_inv (norm_st ?b')"
      unfolding eq using norm_inv_update_inv [OF assms(1)] by (simp add: broadcast_unchanged)
    moreover have "distinct (clients ?b')"
      unfolding eq using broadcast_distinct [OF d1] by simp
    ultimately show ?thesis by blast
  qed
qed

lemma bandpower_single:
  "fs \<noteq> 0 \<Longrightarrow> bandpower_hann_rfft [x] fs lo hi = Inr 0"
  by (simp add: bandpower_hann_rfft_def Let_def hanning_def mean_def rfftfreq_def rfft_def
      any_true_def mask_select_def)

lemma engagement_single:
  "fs \<noteq> 0 \<Longrightarrow> engagement_from_window [[x]] fs = Inr (0, 0, 0, 0)"
  by (simp add: engagement_from_window_def asize_def nrows_def ncols_def column_def
      bandpower_single Let_def)

theorem engagement_bounds_finite_witness:
  "norm_inv (norm_st (bridge_init\<lparr>clients := [1]\<rparr>))
   \<and> distinct (clients (bridge_init\<lparr>clients := [1]\<rparr>))
   \<and> inbox (snd (fst (gate_step \<lparr>send_fails = {}, close_fails = {}\<rparr> 1 1 7
           ((loop_vars_init 0)\<lparr>buf := [[3]], global_idx := 256\<rparr>,
            bridge_init\<lparr>clients := [1]\<rparr>)))) 1
       = [Engagement 7 1 (Fin 0) (Fin (1/2)) 0 0 0 (Some (Fin 0)) (Some (Fin 0)) ''normal'']
   \<and> norm_inv (norm_st (snd (fst (gate_step \<lparr>send_fails = {}, close_fails = {}\<rparr> 1 1 7
           ((loop_vars_init 0)\<lparr>buf := [[3]], global_idx := 256\<rparr>,
            bridge_init\<lparr>clients := [1]\<rparr>)))))"
  using engagement_bounds_finite [of "bridge_init\<lparr>clients := [1]\<rparr>"
      "\<lparr>send_fails = {}, close_fails = {}\<rparr>" 1 1 7
      "(loop_vars_init 0)\<lparr>buf := [[3]], global_idx := 256\<rparr>" 1]
  by (simp add: gate_step_def gate_due_def loop_vars_init_def GATE_STRIDE_def nrows_def
      ncols_def last_rows_def engagement_single bridge_init_def NormState_init_def
      update_def fgt_def normalize_E_def py_max_def py_min_def finite_or_none_def
      broadcast_def safe_send_def norm_inv_def)

text \<open>
  The other place where bounds are sent: the calibration message that follows a
  \<^verbatim>\<open>reset_norm\<close> carries \<^verbatim>\<open>null\<close> for both. A control message keeps the bounds
  those of a run.
\<close>

lemma reset_norm_message:
  assumes "dict_get kvs ''type'' = JStr ''reset_norm''" and "distinct (clients b)"
    and "set (clients b) \<inter> send_fails nt \<inter> close_fails nt = {}"
    and "c \<in> set (clients b)" and "c \<notin> send_fails nt"
  shows "inbox (fst (handle_message nt (Payload (JObj kvs)) b)) c
           = inbox b c @ [CalibrationBounds (mode b) None None]"
  using assms
  by (simp add: handle_message_def Let_def reset_def finite_or_none_def broadcast_inbox)

lemma broadcast_norm_stD:
  "broadcast nt m b = (b', e) \<Longrightarrow> norm_st b' = norm_st b"
  using broadcast_unchanged(2) [of nt m b] by simp

lemma handle_message_norm_inv:
  assumes "norm_inv (norm_st b)"
  shows "norm_inv (norm_st (fst (handle_message nt message b)))"
proof (cases message)
  case NotJSON
  then show ?thesis using assms by (simp add: handle_message_def)
next
  case NotText
  then show ?thesis using assms by (simp add: handle_message_def)
next
  case (Unloadable e)
  then show ?thesis using assms by (simp add: handle_message_def)
next
  case (Payload payload)
  show ?thesis
    using assms Payload
    by (auto simp: handle_message_def Let_def broadcast_unchanged norm_inv_reset
        split: json.splits prod.splits option.splits dest!: broadcast_norm_stD)
qed

section \<open>Persistence failures\<close>

lemma load_norm_state_failure:
  "load_body str_float w path = Inl e \<Longrightarrow> load_norm_state str_float w path = (PInf, NInf)"
  by (simp add: load_norm_state_def)

lemma load_body_failures:
  "disk w path = Missing \<Longrightarrow> load_body str_float w path = Inl OSError"
  "disk w path = Garbage \<Longrightarrow> load_body str_float w path = Inl ValueError"
  "disk w path = Content d \<Longrightarrow> (\<forall>kvs. d \<noteq> JObj kvs) \<Longrightarrow>
     load_body str_float w path = Inl AttributeError"
  by (auto simp: load_body_def split: json.splits)

lemma save_norm_state_error:
  "snd (save_norm_state path lo hi t w)
     = (if path @ ''.tmp'' \<in> unwritable w \<or> path \<in> unwritable w then Some OSError else None)"
  by (simp add: save_norm_state_def Let_def)

lemma run_gate_step_save_fails:
  assumes "gate_due win_len v"
    and "engagement_from_window (last_rows win_len (buf v)) (real fs) = Inr (E, a, th, bt)"
    and "flt (Fin E) (lo_bound v) \<or> fgt (Fin E) (hi_bound v)"
    and "path @ ''.tmp'' \<in> unwritable w \<or> path \<in> unwritable w"
  shows "snd (run_gate_step path fs win_len t (v, w)) = Some OSError"
proof -
  have s: "snd (save_norm_state path lo hi t w) = Some OSError" for lo hi
    using assms(4) by (simp add: save_norm_state_error)
  have c: "(case save_norm_state path lo hi t w of
              (w1, Some e) \<Rightarrow> f w1 e | (w1, None) \<Rightarrow> g w1)
             = f (fst (save_norm_state path lo hi t w)) OSError" for lo hi f g
    using s [of lo hi] by (cases "save_norm_state path lo hi t w") simp
  show ?thesis
    using assms(1,2,3) by (auto simp: run_gate_step_def Let_def c)
qed

lemma run_loop_stops:
  "snd (run_iter path fs tick s) = Some e \<Longrightarrow>
   run_loop path fs (tick # ticks) s = run_iter path fs tick s"
  by (cases "run_iter path fs tick s") auto

text \<open>
  Claim C9, as amended. A load that fails in any way (the file cannot be opened, is
  not JSON, is not an object, or holds a bound that is not a number) yields the
  uninitialized bounds. A save that fails is not survived: when the gate is due, the
  computed \<open>E\<close> moves a bound and the temporary file or the target cannot be written,
  the gated step of \<^verbatim>\<open>run_engagement\<close> raises \<^verbatim>\<open>OSError\<close>; and an iteration that
  raises ends the loop, the remaining iterations never run.
\<close>

theorem persistence_failures:
  "(load_body str_float w path = Inl e \<longrightarrow> load_norm_state str_float w path = (PInf, NInf))
   \<and> (disk w path = Missing \<longrightarrow> load_norm_state str_float w path = (PInf, NInf))
   \<and> (disk w path = Garbage \<longrightarrow> load_norm_state str_float w path = (PInf, NInf))
   \<and> (gate_due win_len v
        \<and> engagement_from_window (last_rows win_len (buf v)) (real fs) = Inr (E, a, th, bt)
        \<and> (flt (Fin E) (lo_bound v) \<or> fgt (Fin E) (hi_bound v))
        \<and> (path @ ''.tmp'' \<in> unwritable w \<or> path \<in> unwritable w)
        \<longrightarrow> snd (run_gate_step path fs win_len t (v, w)) = Some OSError)
   \<and> (snd (run_iter path fs tick s) = Some e' \<longrightarrow>
        run_loop path fs (tick # ticks) s = run_iter path fs tick s)"
  using load_norm_state_failure [of str_float w path]
    load_body_failures(1,2) [of w path str_float]
    run_gate_step_save_fails [of win_len v fs E a th bt path w t]
    run_loop_stops [of path fs tick s e' ticks]
  by auto

theorem persistence_failures_witness:
  "load_norm_state (\<lambda>s. None) \<lparr>disk = (\<lambda>p. Missing), unwritable = {''x.tmp''}\<rparr> ''x''
     = (PInf, NInf)
   \<and> snd (run_gate_step ''x'' 1 1 0
          ((run_vars_init 0 (PInf, NInf))\<lparr>buf := [[3]], global_idx := 256\<rparr>,
           \<lparr>disk = (\<lambda>p. Missing), unwritable = {''x.tmp''}\<rparr>)) = Some OSError
   \<and> snd (run_loop ''x'' 1 [(- 1, [], 0), (5, [[4]], 1)]
          ((run_vars_init 0 (PInf, NInf))\<lparr>buf := [[3]], global_idx := 256\<rparr>,
           \<lparr>disk = (\<lambda>p. Missing), unwritable = {''x.tmp''}\<rparr>)) = Some OSError"
proof -
  let ?w = "\<lparr>disk = (\<lambda>p. Missing), unwritable = {''x.tmp''}\<rparr>"
  let ?v = "(run_vars_init 0 (PInf, NInf))\<lparr>buf := [[3]], global_idx := 256\<rparr>"
  note t = persistence_failures [of "\<lambda>s. None" ?w "''x''" OSError 1 ?v 1 0 0 0 0 0
      "(- 1, [], 0)" "(?v, ?w)" OSError "[(5, [[4]], 1)]"]
  have due: "gate_due 1 ?v"
    by (simp add: gate_due_def run_vars_init_def GATE_STRIDE_def nrows_def ncols_def)
  have eng: "engagement_from_window (last_rows 1 (buf ?v)) (real 1) = Inr (0, 0, 0, 0)"
    by (simp add: last_rows_def engagement_single)
  have g: "snd (run_gate_step ''x'' 1 1 0 (?v, ?w)) = Some OSError"
    using t due eng by (simp add: run_vars_init_def)
  have i: "run_iter ''x'' 1 (- 1, [], 0) (?v, ?w) = run_gate_step ''x'' 1 1 0 (?v, ?w)"
    by (simp add: run_iter_def pull_step_def run_vars_init_def win_len_of_eq)
  have l: "snd (run_loop ''x'' 1 [(- 1, [], 0), (5, [[4]], 1)] (?v, ?w)) = Some OSError"
    using t g i by simp
  have "load_norm_state (\<lambda>s. None) ?w ''x'' = (PInf, NInf)"
    using t by simp
  then show ?thesis using g l by blast
qed

text \<open>
  The claim as stated fails for the save: with a sampling rate of 8, no file yet, and a
  temporary file that cannot be written, the first gated evaluation (after 256
  samples) moves the bounds, the save raises, and \<^verbatim>\<open>run_engagement\<close> ends with
  \<^verbatim>\<open>OSError\<close> at the first of its two iterations.
\<close>

theorem save_failure_counterexample:
  "snd (run_engagement (\<lambda>s. None) ''engagement_norm.json'' 8 0
          [(0, replicate 256 [0], 0), (1, replicate 256 [0], 1)]
          \<lparr>disk = (\<lambda>p. Missing), unwritable = {''engagement_norm.json.tmp''}\<rparr>)
     = Some OSError"
proof -
  let ?w = "\<lparr>disk = (\<lambda>p. Missing), unwritable = {''engagement_norm.json.tmp''}\<rparr>"
  let ?p = "''engagement_norm.json''"
  let ?v0 = "run_vars_init 0 (PInf, NInf)"
  let ?v1 = "?v0\<lparr>global_idx := 256, buf := replicate 8 [0 :: real], next_pull := 2/10\<rparr>"
  have ld: "load_norm_state (\<lambda>s. None) ?w ?p = (PInf, NInf)"
    by (simp add: load_norm_state_def load_body_def)
  have pull: "pull_step 8 8 0 (replicate 256 [0]) ?v0 = Inr ?v1"
    by (simp add: pull_step_def run_vars_init_def buffer_append_def nrows_def asize_def
        ncols_def last_rows_def advance_pull_def EEG_PULL_PERIOD_S_def)
  have due: "gate_due 8 ?v1"
    by (simp add: gate_due_def run_vars_init_def GATE_STRIDE_def nrows_def ncols_replicate)
  obtain E a th bt where
    eng: "engagement_from_window (last_rows 8 (buf ?v1)) (real 8) = Inr (E, a, th, bt)"
    using engagement_total [of "real 8" "last_rows 8 (buf ?v1)"] by auto
  have mv: "flt (Fin E) (lo_bound ?v1) \<or> fgt (Fin E) (hi_bound ?v1)"
    by (simp add: run_vars_init_def)
  have g: "snd (run_gate_step ?p 8 8 0 (?v1, ?w)) = Some OSError"
    using run_gate_step_save_fails [OF due eng mv, of ?p ?w 0] by simp
  have i: "run_iter ?p 8 (0, replicate 256 [0], 0) (?v0, ?w) = run_gate_step ?p 8 8 0 (?v1, ?w)"
    by (simp add: run_iter_def win_len_of_eq pull)
  have l: "snd (run_loop ?p 8 [(0, replicate 256 [0], 0), (1, replicate 256 [0], 1)] (?v0, ?w))
             = Some OSError"
    using run_loop_stops [of ?p 8 "(0, replicate 256 [0], 0)" "(?v0, ?w)" OSError
        "[(1, replicate 256 [0], 1)]"] g i by simp
  have r: "snd (run_engagement (\<lambda>s. None) ?p 8 0 ticks ?w)
             = snd (run_loop ?p 8 ticks (?v0, ?w))" for ticks
    by (simp add: run_engagement_def win_len_of_eq ld split: prod.splits)
  show ?thesis
    unfolding r by (rule l)
qed

section \<open>The spectral engine against the specification\<close>

lemma mask_select_map:
  "mask_select (map g ks) (map q ks) = map g (filter q ks)"
  by (induction ks) (simp_all add: mask_select_def)

lemma any_true_map:
  "any_true (map q ks) \<longleftrightarrow> filter q ks \<noteq> []"
  by (induction ks) (simp_all add: any_true_def)

text \<open>The trapezoidal rule over a run of consecutive indices.\<close>

lemma trapz_upt:
  "trapz (map p [i..<j]) (map f [i..<j])
     = (\<Sum>k \<leftarrow> [i..<j - 1]. (f (k + 1) - f k) * (p (k + 1) + p k) / 2)"
proof (induction "j - i" arbitrary: i)
  case 0
  then show ?case by simp
next
  case (Suc d)
  then have ij: "i < j" and d: "d = j - Suc i" by simp_all
  show ?case
  proof (cases "Suc i < j")
    case False
    then have "j = Suc i" using ij by simp
    then show ?thesis by simp
  next
    case True
    have l: "[i..<j] = i # Suc i # [Suc (Suc i)..<j]"
      using True ij by (simp add: upt_conv_Cons)
    have r: "[i..<j - 1] = i # [Suc i..<j - 1]"
      using True by (simp add: upt_conv_Cons)
    have t: "[Suc i..<j] = Suc i # [Suc (Suc i)..<j]"
      using True by (simp add: upt_conv_Cons)
    have "trapz (map p [i..<j]) (map f [i..<j])
            = (f (Suc i) - f i) * (p (Suc i) + p i) / 2
              + trapz (map p [Suc i..<j]) (map f [Suc i..<j])"
      by (simp add: l t)
    also have "trapz (map p [Suc i..<j]) (map f [Suc i..<j])
            = (\<Sum>k \<leftarrow> [Suc i..<j - 1]. (f (k + 1) - f k) * (p (k + 1) + p k) / 2)"
      using Suc.hyps(1) [OF d] .
    finally show ?thesis using r by simp
  qed
qed

text \<open>
  Along a non-decreasing sequence of frequencies, the bins inside \<open>[lo, hi)\<close> are a
  run of consecutive indices.
\<close>

lemma band_is_interval:
  fixes f :: "nat \<Rightarrow> real"
  assumes mono: "\<And>a b. a \<le> b \<Longrightarrow> f a \<le> f b"
  shows "\<exists>a b. filter (\<lambda>k. lo \<le> f k \<and> f k < hi) [0..<N] = [a..<b] \<and> b \<le> N
           \<and> (\<forall>k < N. (lo \<le> f k \<and> f k < hi) \<longleftrightarrow> (a \<le> k \<and> k < b))"
proof (induction N)
  case 0
  have "filter (\<lambda>k. lo \<le> f k \<and> f k < hi) [0..<0] = [0..<0]" by simp
  then show ?case by blast
next
  case (Suc N)
  let ?q = "\<lambda>k. lo \<le> f k \<and> f k < hi"
  obtain a b where ab: "filter ?q [0..<N] = [a..<b]" "b \<le> N"
    and ch: "\<forall>k < N. ?q k \<longleftrightarrow> (a \<le> k \<and> k < b)"
    using Suc by blast
  show ?case
  proof (cases "?q N")
    case False
    have "filter ?q [0..<Suc N] = [a..<b]" using False ab by simp
    moreover have "\<forall>k < Suc N. ?q k \<longleftrightarrow> (a \<le> k \<and> k < b)"
      using ch False ab(2) by (auto simp: less_Suc_eq)
    ultimately show ?thesis using ab(2) le_Suc_eq by blast
  next
    case True
    show ?thesis
    proof (cases "a < b")
      case False
      then have e: "filter ?q [0..<N] = []" using ab by simp
      have "filter ?q [0..<Suc N] = [N..<Suc N]" using True e by simp
      moreover have "\<forall>k < Suc N. ?q k \<longleftrightarrow> (N \<le> k \<and> k < Suc N)"
        using ch False True by (auto simp: less_Suc_eq)
      ultimately show ?thesis by blast
    next
      case ab_lt: True
      have "b = N"
      proof (rule ccontr)
        assume "b \<noteq> N"
        then have bN: "b < N" using ab(2) by simp
        have qa: "?q a" using ch ab_lt bN by simp
        have "f a \<le> f b" "f b \<le> f N" using mono ab_lt bN by simp_all
        then have "?q b" using qa True by linarith
        then show False using ch bN by simp
      qed
      then have "filter ?q [0..<Suc N] = [a..<Suc N]"
        using True ab ab_lt by simp
      moreover have "\<forall>k < Suc N. ?q k \<longleftrightarrow> (a \<le> k \<and> k < Suc N)"
        using ch True \<open>b = N\<close> ab_lt by (auto simp: less_Suc_eq)
      ultimately show ?thesis by blast
    qed
  qed
qed

lemma trapz_band:
  fixes f :: "nat \<Rightarrow> real"
  assumes mono: "\<And>a b. a \<le> b \<Longrightarrow> f a \<le> f b"
  shows "trapz (map p (filter (\<lambda>k. lo \<le> f k \<and> f k < hi) [0..<N]))
               (map f (filter (\<lambda>k. lo \<le> f k \<and> f k < hi) [0..<N]))
           = (\<Sum>k \<leftarrow> [0..<N - 1].
                if lo \<le> f k \<and> f (k + 1) < hi
                then (f (k + 1) - f k) * (p (k + 1) + p k) / 2 else 0)"
proof -
  let ?q = "\<lambda>k. lo \<le> f k \<and> f k < hi"
  let ?area = "\<lambda>k. (f (k + 1) - f k) * (p (k + 1) + p k) / 2"
  obtain a b where ab: "filter ?q [0..<N] = [a..<b]" "b \<le> N"
    and ch: "\<forall>k < N. ?q k \<longleftrightarrow> (a \<le> k \<and> k < b)"
    using band_is_interval [of f lo hi N] mono by blast
  have step: "f k \<le> f (k + 1)" for k using mono [of k "k + 1"] by simp
  have set_eq: "{0..<N - 1} \<inter> {k. lo \<le> f k \<and> f (k + 1) < hi} = {a..<b - 1}"
  proof (rule set_eqI)
    fix k
    show "k \<in> {0..<N - 1} \<inter> {k. lo \<le> f k \<and> f (k + 1) < hi} \<longleftrightarrow> k \<in> {a..<b - 1}"
    proof (cases "k + 1 < N")
      case False
      then show ?thesis using ab(2) by auto
    next
      case True
      then have "?q k \<longleftrightarrow> (a \<le> k \<and> k < b)" "?q (k + 1) \<longleftrightarrow> (a \<le> k + 1 \<and> k + 1 < b)"
        using ch by simp_all
      moreover have "lo \<le> f k \<and> f (k + 1) < hi \<longleftrightarrow> ?q k \<and> ?q (k + 1)"
        using step [of k] by auto
      ultimately show ?thesis using True by auto
    qed
  qed
  have "trapz (map p (filter ?q [0..<N])) (map f (filter ?q [0..<N]))
          = (\<Sum>k \<leftarrow> [a..<b - 1]. ?area k)"
    unfolding ab(1) by (rule trapz_upt)
  also have "\<dots> = sum ?area {a..<b - 1}"
    by (simp add: interv_sum_list_conv_sum_set_nat)
  also have "\<dots> = sum ?area ({0..<N - 1} \<inter> {k. lo \<le> f k \<and> f (k + 1) < hi})"
    by (simp only: set_eq)
  also have "\<dots> = (\<Sum>k \<in> {0..<N - 1}. if k \<in> {k. lo \<le> f k \<and> f (k + 1) < hi}
                                      then ?area k else 0)"
    by (rule sum.inter_restrict) simp
  also have "\<dots> = (\<Sum>k \<leftarrow> [0..<N - 1]. if lo \<le> f k \<and> f (k + 1) < hi then ?area k else 0)"
    by (simp add: interv_sum_list_conv_sum_set_nat)
  finally show ?thesis .
qed

lemma hanning_spec: "2 \<le> n \<Longrightarrow> hanning n = map (spec_hann n) [0..<n]"
  by (simp add: hanning_def spec_hann_def diff_divide_distrib)

lemma mean_sum: "mean x = (\<Sum>m = 0..<length x. x ! m) / real (length x)"
  by (simp add: mean_def sum_list_sum_nth)

lemma cis_exp_form:
  "cis (- (2 * pi * real m * real k / real n))
     = exp (- (complex_of_real (2 * pi) * \<i> * complex_of_real (real m * real k / real n)))"
  by (simp add: cis_conv_exp algebra_simps)

lemma psd_spec:
  assumes "2 \<le> length x"
  shows "map (\<lambda>z. (cmod z)\<^sup>2 / (sum_list (map (\<lambda>w. w\<^sup>2) (hanning (length x))) * fs))
           (rfft (map2 (\<lambda>xi wi. (xi - mean x) * wi) x (hanning (length x))))
         = map (spec_psd x fs) [0..<length x div 2 + 1]"
proof -
  let ?n = "length x"
  let ?d = "map2 (\<lambda>xi wi. (xi - mean x) * wi) x (hanning ?n)"
  have len: "length ?d = ?n" by (simp add: hanning_spec [OF assms])
  have nth: "?d ! m = (x ! m - mean x) * spec_hann ?n m" if "m < ?n" for m
    using that by (simp add: hanning_spec [OF assms])
  have en: "sum_list (map (\<lambda>w. w\<^sup>2) (hanning ?n)) = (\<Sum>m = 0..<?n. (spec_hann ?n m)\<^sup>2)"
    by (simp add: hanning_spec [OF assms] comp_def interv_sum_list_conv_sum_set_nat)
  have nth': "?d ! m = (x ! m - (\<Sum>m = 0..<?n. x ! m) / real ?n) * spec_hann ?n m"
    if "m < ?n" for m
    using nth [OF that] by (simp only: mean_sum)
  have four: "(\<Sum>m = 0..<?n. complex_of_real (?d ! m)
                  * cis (- (2 * pi * real m * real k / real ?n)))
              = (\<Sum>m = 0..<?n.
                  complex_of_real ((x ! m - (\<Sum>m = 0..<?n. x ! m) / real ?n) * spec_hann ?n m)
                  * exp (- (complex_of_real (2 * pi) * \<i>
                            * complex_of_real (real m * real k / real ?n))))" for k
    by (rule sum.cong) (simp_all only: nth' cis_exp_form atLeastLessThan_iff)
  have pt: "(cmod (\<Sum>m = 0..<?n. complex_of_real (?d ! m)
                  * cis (- (2 * pi * real m * real k / real ?n))))\<^sup>2
              / ((\<Sum>m = 0..<?n. (spec_hann ?n m)\<^sup>2) * fs)
            = spec_psd x fs k" for k
    by (simp only: spec_psd_def Let_def four)
  show ?thesis
    unfolding rfft_def Let_def len map_map comp_def en pt by (rule refl)
qed

lemma spec_freq_mono:
  "0 < fs \<Longrightarrow> a \<le> b \<Longrightarrow> spec_freq n fs a \<le> spec_freq n fs b"
  by (simp add: spec_freq_def divide_right_mono mult_right_mono)

lemma rfftfreq_spec:
  "fs \<noteq> 0 \<Longrightarrow> rfftfreq n (1 / fs) = map (spec_freq n fs) [0..<n div 2 + 1]"
  by (simp add: rfftfreq_def spec_freq_def)

lemma spec_bandpower_short: "length x \<le> 1 \<Longrightarrow> spec_bandpower x fs lo hi = 0"
  by (simp add: spec_bandpower_def)

lemma bandpower_refines:
  assumes "0 < fs"
  shows "bandpower_hann_rfft x fs lo hi = Inr (spec_bandpower x fs lo hi)"
proof -
  consider (empty) "x = []" | (one) v where "x = [v]" | (more) "2 \<le> length x"
    by (cases x; cases "tl x") auto
  then show ?thesis
  proof cases
    case empty
    then show ?thesis
      by (simp add: bandpower_hann_rfft_def spec_bandpower_def)
  next
    case one
    then show ?thesis
      using assms by (simp add: bandpower_single spec_bandpower_short)
  next
    case more
    let ?n = "length x"
    let ?N = "?n div 2 + 1"
    let ?f = "spec_freq ?n fs"
    let ?q = "\<lambda>k. lo \<le> ?f k \<and> ?f k < hi"
    let ?K = "filter ?q [0..<?N]"
    have fs: "fs \<noteq> 0" using assms by simp
    have n0: "?n \<noteq> 0" using more by auto
    have src: "bandpower_hann_rfft x fs lo hi
                 = Inr (trapz (map (spec_psd x fs) ?K) (map ?f ?K))"
      unfolding bandpower_hann_rfft_def Let_def psd_spec [OF more]
        rfftfreq_spec [OF fs] map_map comp_def mask_select_map any_true_map
      using n0 fs by (cases "?K = []") (simp_all add: filter_map comp_def del: upt_Suc)
    have "trapz (map (spec_psd x fs) ?K) (map ?f ?K)
            = (\<Sum>k \<leftarrow> [0..<?N - 1].
                 if lo \<le> ?f k \<and> ?f (k + 1) < hi
                 then (?f (k + 1) - ?f k) * (spec_psd x fs (k + 1) + spec_psd x fs k) / 2
                 else 0)"
      by (rule trapz_band) (rule spec_freq_mono [OF assms])
    also have "\<dots> = spec_bandpower x fs lo hi"
      by (simp add: spec_bandpower_def Let_def)
    finally show ?thesis using src by simp
  qed
qed

lemma bandpower_no_bins:
  assumes "fs \<noteq> 0"
    and "\<forall>k \<le> length x div 2.
           \<not> (lo \<le> spec_freq (length x) fs k \<and> spec_freq (length x) fs k < hi)"
  shows "bandpower_hann_rfft x fs lo hi = Inr 0"
proof -
  have "filter (\<lambda>k. lo \<le> spec_freq (length x) fs k \<and> spec_freq (length x) fs k < hi)
          [0..<length x div 2 + 1] = []"
    using assms(2) by (auto simp: filter_empty_conv)
  then have "\<not> any_true (map (\<lambda>f. lo \<le> f \<and> f < hi) (rfftfreq (length x) (1 / fs)))"
    by (simp only: rfftfreq_spec [OF assms(1)] map_map comp_def any_true_map) simp
  then show ?thesis
    using assms(1) by (simp add: bandpower_hann_rfft_def Let_def)
qed

lemma channel_loop_sums:
  assumes "0 < fs"
  shows "channel_loop win fs cs (t0, a0, b0)
           = Inr (t0 + (\<Sum>c \<leftarrow> cs. spec_bandpower (column win c) fs 4 7),
                  a0 + (\<Sum>c \<leftarrow> cs. spec_bandpower (column win c) fs 7 11),
                  b0 + (\<Sum>c \<leftarrow> cs. spec_bandpower (column win c) fs 11 20))"
  by (induction cs arbitrary: t0 a0 b0)
     (simp_all add: bandpower_refines [OF assms] THETA_def ALPHA_def BETA_def Let_def)

lemma engagement_refines:
  assumes "0 < fs" and "asize win \<noteq> 0"
  shows "engagement_from_window win fs = Inr (spec_compute win fs)"
  using assms(2)
  by (simp add: engagement_from_window_def channel_loop_sums [OF assms(1)] spec_compute_def
      spec_band_mean_def Let_def)

lemma hann_energy_pos:
  assumes "3 \<le> n"
  shows "0 < (\<Sum>m = 0..<n. (spec_hann n m)\<^sup>2)"
proof -
  have r: "0 < 2 * pi / real (n - 1)" "2 * pi / real (n - 1) \<le> pi"
    using assms by (simp_all add: field_simps)
  have "cos (2 * pi / real (n - 1)) < cos 0"
    using r by (intro cos_monotone_0_pi) simp_all
  then have p: "0 < spec_hann n 1"
    by (simp add: spec_hann_def)
  have "(spec_hann n 1)\<^sup>2 \<le> (\<Sum>m = 0..<n. (spec_hann n m)\<^sup>2)"
    using assms by (intro member_le_sum) simp_all
  moreover have "0 < (spec_hann n 1)\<^sup>2" using p by simp
  ultimately show ?thesis by linarith
qed

text \<open>
  Claim C1. For a positive sampling rate and a window with at least one sample and
  one channel, \<^verbatim>\<open>engagement_from_window\<close> returns, without raising, what the
  specification describes: per channel the mean is removed, the Hann window applied,
  the power spectral density of the real Fourier transform divided by the window energy
  times the sampling rate, each band integrated by the trapezoidal rule over its bins in
  \<open>[lo, hi)\<close> (theta 4 to 7, alpha 7 to 11, beta 11 to 20), the bands averaged over
  the channels, and \<open>E = beta / (alpha + theta)\<close> when \<open>alpha + theta\<close> exceeds
  \<^verbatim>\<open>1e-12\<close>, else 0. The band power of one channel is the specification's for every
  band that starts above 0 Hz. An empty window gives four zeros, and a band without a
  bin gives zero power. (A window of two samples has a Hann window of zeros, where
  numpy's quotient is NaN and the model's is 0: a band that starts above 0 Hz then
  holds at most one bin and its integral is 0 in both; from three samples on the window
  energy is positive, see \<open>hann_energy_pos\<close>.)
\<close>

theorem compute_refines_spec:
  "(0 < fs \<and> asize win \<noteq> 0 \<longrightarrow>
      engagement_from_window win fs = Inr (spec_compute win fs))
   \<and> (0 < fs \<and> 0 < lo \<longrightarrow>
        bandpower_hann_rfft x fs lo hi = Inr (spec_bandpower x fs lo hi))
   \<and> (asize win = 0 \<longrightarrow> engagement_from_window win fs = Inr (0, 0, 0, 0))
   \<and> (fs \<noteq> 0
        \<and> (\<forall>k \<le> length x div 2.
              \<not> (lo \<le> spec_freq (length x) fs k \<and> spec_freq (length x) fs k < hi))
        \<longrightarrow> bandpower_hann_rfft x fs lo hi = Inr 0)"
  using engagement_refines [of fs win] bandpower_refines [of fs x lo hi]
    bandpower_no_bins [of fs x lo hi]
  by (simp add: engagement_from_window_def)

theorem compute_refines_spec_witness:
  "engagement_from_window [[1, 2], [3, 4], [5, 6]] 125
     = Inr (spec_compute [[1, 2], [3, 4], [5, 6]] 125)
   \<and> bandpower_hann_rfft [1, 3, 5] 125 4 7 = Inr 0
   \<and> spec_bandpower [1, 3, 5] 125 4 7 = 0
   \<and> engagement_from_window [] 125 = Inr (0, 0, 0, 0)"
proof -
  have nb: "\<forall>k \<le> length [1, 3, 5 :: real] div 2.
              \<not> (4 \<le> spec_freq (length [1, 3, 5 :: real]) 125 k
                 \<and> spec_freq (length [1, 3, 5 :: real]) 125 k < 7)"
    by (auto simp: spec_freq_def le_Suc_eq)
  have sz: "asize [[1, 2], [3, 4], [5, 6 :: real]] \<noteq> 0" "asize ([] :: ndarray) = 0"
    by (simp_all add: asize_def nrows_def ncols_def)
  show ?thesis
    using compute_refines_spec [where fs = 125 and win = "[[1, 2], [3, 4], [5, 6]]"
          and x = "[1, 3, 5]" and lo = 4 and hi = 7]
      compute_refines_spec [where fs = 125 and win = "[]"
          and x = "[1, 3, 5]" and lo = 4 and hi = 7] nb sz
    by simp
qed

section \<open>The console variant\<close>

text \<open>
  The console variant \<^verbatim>\<open>run_engagement\<close> gates and updates its bounds in the same
  way, as long as the save succeeds: one evaluation, the bounds those of
  \<^verbatim>\<open>NormState.update\<close>, and the gate advanced by the same loop.
\<close>

lemma run_gate_step_fires:
  assumes "gate_due win_len v" and "0 < fs"
    and "engagement_from_window (last_rows win_len (buf v)) (real fs) = Inr (E, a, th, bt)"
    and "path @ ''.tmp'' \<notin> unwritable w" and "path \<notin> unwritable w"
  shows "\<exists>w' ls. run_gate_step path fs win_len t (v, w)
           = ((v\<lparr>evals := evals v + 1, last_sec := ls,
                  next_gate := advance_gate (next_gate v) (global_idx v),
                  lo_bound := Emin (update \<lparr>Emin = lo_bound v, Emax = hi_bound v\<rparr> (Fin E)),
                  hi_bound := Emax (update \<lparr>Emin = lo_bound v, Emax = hi_bound v\<rparr> (Fin E))\<rparr>,
               w'), None)"
proof -
  let ?lo = "if flt (Fin E) (lo_bound v) then Fin E else lo_bound v"
  let ?hi = "if fgt (Fin E) (hi_bound v) then Fin E else hi_bound v"
  let ?sec = "int (global_idx v div fs)"
  obtain r where n: "normalize_E \<lparr>Emin = ?lo, Emax = ?hi\<rparr> (Fin E) = Inr (Fin r)"
    using normalize_E_total by blast
  obtain w' where s: "save_norm_state path ?lo ?hi t w = (w', None)"
    using assms(4,5) by (simp add: save_norm_state_def Let_def)
  have u: "Emin (update \<lparr>Emin = lo_bound v, Emax = hi_bound v\<rparr> (Fin E)) = ?lo"
    "Emax (update \<lparr>Emin = lo_bound v, Emax = hi_bound v\<rparr> (Fin E)) = ?hi"
    by (simp_all add: update_def Let_def)
  have "run_gate_step path fs win_len t (v, w)
          = ((v\<lparr>evals := evals v + 1,
                 last_sec := (if ?sec \<noteq> last_sec v then ?sec else last_sec v),
                 next_gate := advance_gate (next_gate v) (global_idx v),
                 lo_bound := ?lo, hi_bound := ?hi\<rparr>,
              (if flt (Fin E) (lo_bound v) \<or> fgt (Fin E) (hi_bound v) then w' else w)), None)"
    using assms(1,2,3) n s
    by (cases "flt (Fin E) (lo_bound v)"; cases "fgt (Fin E) (hi_bound v)";
        cases "?sec = last_sec v")
       (simp_all add: run_gate_step_def Let_def)
  then show ?thesis unfolding u by blast
qed

end
